theory Spec2Isabelle
  imports Main
begin

section \<open>JavaScript strings\<close>

text \<open>
  The component works on JavaScript strings. They are modelled as \<^typ>\<open>string\<close>, one
  \<^typ>\<open>char\<close> per code unit, which covers exactly the strings whose code units lie
  in the Latin-1 range \<open>0..255\<close> (German transcripts with their umlauts included: the
  letter o-umlaut is the code unit \<open>0xF6\<close>). On this range the built-in string functions
  used by the component are modelled in full.
\<close>

definition oUml :: char where
  "oUml = CHR 0xF6"

definition uUml :: char where
  "uUml = CHR 0xFC"

text \<open>The class \<open>\s\<close> of a regular expression, which is also what \<open>trim\<close> strips:
  tab, line feed, vertical tab, form feed, carriage return, space and no-break space.\<close>

definition isWhiteSpace :: "char \<Rightarrow> bool" where
  "isWhiteSpace c = (let n = (of_char c :: nat) in (9 \<le> n \<and> n \<le> 13) \<or> n = 32 \<or> n = 160)"

text \<open>The class \<open>\w\<close> (without the unicode flag): \<open>[A-Za-z0-9_]\<close>.\<close>

definition isWordChar :: "char \<Rightarrow> bool" where
  "isWordChar c = (let n = (of_char c :: nat) in
     (48 \<le> n \<and> n \<le> 57) \<or> (65 \<le> n \<and> n \<le> 90) \<or> n = 95 \<or> (97 \<le> n \<and> n \<le> 122))"

text \<open>\<open>String.prototype.toLowerCase\<close>: the upper-case letters of Latin-1 are \<open>A-Z\<close> and
  \<open>0xC0-0xDE\<close> without the multiplication sign \<open>0xD7\<close>; each has its lower-case
  partner 32 code units further on.\<close>

definition lowerChar :: "char \<Rightarrow> char" where
  "lowerChar c = (let n = (of_char c :: nat) in
     if (65 \<le> n \<and> n \<le> 90) \<or> (192 \<le> n \<and> n \<le> 214) \<or> (216 \<le> n \<and> n \<le> 222)
     then char_of (n + 32) else c)"

definition toLowerCase :: "string \<Rightarrow> string" where
  "toLowerCase s = map lowerChar s"

text \<open>\<open>String.prototype.trim\<close>.\<close>

definition trim :: "string \<Rightarrow> string" where
  "trim s = rev (dropWhile isWhiteSpace (rev (dropWhile isWhiteSpace s)))"

text \<open>\<open>s.indexOf(c)\<close> for a one-character search string: the index of the first
  occurrence, or \<open>-1\<close>.\<close>

fun indexOf :: "string \<Rightarrow> char \<Rightarrow> int" where
  "indexOf [] c = -1"
| "indexOf (x # xs) c =
     (if x = c then 0 else (let i = indexOf xs c in if i < 0 then -1 else i + 1))"

text \<open>\<open>s.substr(start)\<close>: a negative start counts from the end of the string.\<close>

definition substr :: "string \<Rightarrow> int \<Rightarrow> string" where
  "substr s start =
     (let n = int (length s);
          from = (if start < 0 then max (n + start) 0 else min start n)
      in drop (nat from) s)"

section \<open>Regular expressions\<close>

text \<open>
  The patterns of the command switch use literal characters, the classes \<open>\w\<close> and
  \<open>\s\<close>, concatenation and the star; groups only capture. \<open>s.match(re)\<close> without
  the global flag succeeds iff the pattern matches some substring of \<open>s\<close>. The matcher
  works with derivatives, for which the empty language and the union are needed too.
\<close>

datatype regex =
    Zero
  | One
  | Chr char
  | WordChar
  | WhiteSpace
  | Alt regex regex
  | Seq regex regex
  | Star regex

fun nullable :: "regex \<Rightarrow> bool" where
  "nullable Zero = False"
| "nullable One = True"
| "nullable (Chr c) = False"
| "nullable WordChar = False"
| "nullable WhiteSpace = False"
| "nullable (Alt r s) = (nullable r \<or> nullable s)"
| "nullable (Seq r s) = (nullable r \<and> nullable s)"
| "nullable (Star r) = True"

fun deriv :: "char \<Rightarrow> regex \<Rightarrow> regex" where
  "deriv c Zero = Zero"
| "deriv c One = Zero"
| "deriv c (Chr d) = (if c = d then One else Zero)"
| "deriv c WordChar = (if isWordChar c then One else Zero)"
| "deriv c WhiteSpace = (if isWhiteSpace c then One else Zero)"
| "deriv c (Alt r s) = Alt (deriv c r) (deriv c s)"
| "deriv c (Seq r s) =
     (if nullable r then Alt (Seq (deriv c r) s) (deriv c s) else Seq (deriv c r) s)"
| "deriv c (Star r) = Seq (deriv c r) (Star r)"

text \<open>Does the pattern match a prefix of the string?\<close>

fun matchesPrefix :: "regex \<Rightarrow> string \<Rightarrow> bool" where
  "matchesPrefix r [] = nullable r"
| "matchesPrefix r (c # cs) = (nullable r \<or> matchesPrefix (deriv c r) cs)"

text \<open>\<open>s.match(r) != null\<close>: the pattern matches at some start position.\<close>

fun matches :: "string \<Rightarrow> regex \<Rightarrow> bool" where
  "matches [] r = nullable r"
| "matches (c # cs) r = (matchesPrefix r (c # cs) \<or> matches cs r)"

fun lit :: "string \<Rightarrow> regex" where
  "lit [] = One"
| "lit (c # cs) = Seq (Chr c) (lit cs)"

text \<open>The five patterns of the switch, in the order of its case labels.\<close>

definition reNeuerTermin :: regex where
  "reNeuerTermin =
     Seq (Star WordChar) (Seq (lit ''neuer'') (Seq WhiteSpace (Seq (lit ''termin'') (Star WordChar))))"

definition reAufEinWiederhoeren :: regex where
  "reAufEinWiederhoeren =
     Seq (Star WordChar) (Seq (lit ''auf'') (Seq WhiteSpace (Seq (lit ''ein'') (Seq WhiteSpace
       (Seq (lit (''wiederh'' @ [oUml] @ ''ren'')) (Star WordChar))))))"

definition reHilfe :: regex where
  "reHilfe = Seq (Star WordChar) (Seq (lit ''hilfe'') (Star WordChar))"

definition reLoesche :: regex where
  "reLoesche = Seq (lit (''l'' @ [oUml] @ ''sche'')) (Star WordChar)"

definition reZeige :: regex where
  "reZeige = Seq (lit ''zeige'') (Star WordChar)"

text \<open>The words a pattern denotes, used to reason about the matcher.\<close>

inductive_set star :: "string set \<Rightarrow> string set" for A :: "string set" where
  star_empty: "[] \<in> star A"
| star_step: "u \<in> A \<Longrightarrow> v \<in> star A \<Longrightarrow> u @ v \<in> star A"

fun words :: "regex \<Rightarrow> string set" where
  "words Zero = {}"
| "words One = {[]}"
| "words (Chr c) = {[c]}"
| "words WordChar = {w. \<exists>c. w = [c] \<and> isWordChar c}"
| "words WhiteSpace = {w. \<exists>c. w = [c] \<and> isWhiteSpace c}"
| "words (Alt r s) = words r \<union> words s"
| "words (Seq r s) = {w. \<exists>u v. w = u @ v \<and> u \<in> words r \<and> v \<in> words s}"
| "words (Star r) = star (words r)"

section \<open>JavaScript values returned by the appointment-creation dialog\<close>

text \<open>
  The dialog result is typed \<open>PathwayEvent | WebSpeechSynthesisMessage\<close> but is inspected
  by truthiness and by property access only, so it is modelled as an untyped value.
\<close>

datatype jsval =
    JUndefined
  | JNull
  | JBool bool
  | JNum int
  | JNaN
  | JStr string
  | JObj "(string \<times> jsval) list"

fun truthy :: "jsval \<Rightarrow> bool" where
  "truthy JUndefined = False"
| "truthy JNull = False"
| "truthy (JBool b) = b"
| "truthy (JNum n) = (n \<noteq> 0)"
| "truthy JNaN = False"
| "truthy (JStr s) = (s \<noteq> [])"
| "truthy (JObj fs) = True"

text \<open>\<open>v?.k\<close> for the property names the component reads (\<open>date\<close>, \<open>header\<close>,
  \<open>content\<close>, \<open>data\<close>): \<open>undefined\<close> on \<open>null\<close>, \<open>undefined\<close> and on primitives,
  the stored value on an object that has the property.\<close>

fun getProp :: "jsval \<Rightarrow> string \<Rightarrow> jsval" where
  "getProp (JObj fs) k = (case map_of fs k of Some v \<Rightarrow> v | None \<Rightarrow> JUndefined)"
| "getProp v k = JUndefined"

definition isPathwayEvent :: "jsval \<Rightarrow> bool" where
  "isPathwayEvent objectToCheck =
     (if truthy (getProp objectToCheck ''date'') \<and> truthy (getProp objectToCheck ''header'')
         \<and> truthy (getProp objectToCheck ''content'')
      then True else False)"

section \<open>The component state and its collaborators\<close>

record voice =
  voiceURI :: string
  voiceName :: string
  lang :: string

text \<open>Every call the component makes on a collaborator (recognition service, synthesis
  service, snack bar, dialog service) and every event it emits upward. Console output is
  not recorded. What a collaborator does in answer to a call (the parent component on an
  upward event, for instance) reaches the component as a later event.\<close>

datatype call =
    InitRecognition
  | StartRecognition
  | StopRecognition
  | SpeakUtterance jsval
  | SetVoice voice
  | DisplayMessage jsval
  | OpenHelpDialog
  | OpenCreatorDialog
  | NewPathwayEventCreated jsval
  | UserWantsToOpenEvent string
  | UserWantsDoDeleteEvent string

text \<open>The observables the component subscribes to.\<close>

datatype source =
    OnSpeechRecognitionResultAvailable
  | OnSpeechRecognitionStarted
  | OnSpeechRecognitionEnded
  | OnSpeechRecognitionError
  | OnSpeechStart
  | OnSpeechEnd
  | OnVoiceListUpdated
  | OnPathwayEventDeleted
  | AfterClosed

text \<open>The callbacks the component passes to \<open>subscribe\<close>, one constructor per closure
  in the source.\<close>

datatype handler =
    ResultAvailableHandler
  | RecognitionStartedHandler
  | RecognitionEndedHandler
  | RecognitionErrorHandler
  | PathwayEventDeletedHandler
  | DeletedSpeechStartHandler
  | VoiceListUpdatedHandler
  | DeleteSpeechEndHandler
  | CreatorSpeechEndHandler
  | HelpDialogClosedHandler
  | CreatorDialogClosedHandler

type_synonym subscription = "nat \<times> source \<times> handler"

text \<open>
  The fields of the component, followed by what it shares with its collaborators: the
  subscriptions that are open (in the order they were made), the next fresh subscription
  identifier, and the trace of calls made so far, each with the value \<open>pathIsListening\<close>
  had when the call was made.
\<close>

record state =
  availableVoices :: "voice list"
  speechRecognitionAvailable :: bool
  pathIsListening :: bool
  currentSpeechRecognitionServiceSubscriptions :: "nat list"
  subscriptions :: "subscription list"
  nextId :: nat
  trace :: "(call \<times> bool) list"

definition constructed :: state where
  "constructed = \<lparr> availableVoices = [], speechRecognitionAvailable = False,
     pathIsListening = False, currentSpeechRecognitionServiceSubscriptions = [],
     subscriptions = [], nextId = 0, trace = [] \<rparr>"

definition calls :: "state \<Rightarrow> call list" where
  "calls s = map fst (trace s)"

definition doCall :: "call \<Rightarrow> state \<Rightarrow> state" where
  "doCall c s = s\<lparr>trace := trace s @ [(c, pathIsListening s)]\<rparr>"

text \<open>Modelled from the spec: the recognition, synthesis and pathway services and the
  dialog service, whose observables the component subscribes to, are not among the source
  files. Their observables are taken to be plain event streams (section 5 of the spec:
  discrete events on one logical thread, one-shot callbacks that unsubscribe themselves;
  section 4.3: no event is processed by a cancelled subscription). \<open>subscribe\<close> registers
  a callback under a fresh identifier, \<open>unsubscribe\<close> removes it and does nothing on a
  subscription that is no longer open.\<close>

definition subscribe :: "source \<Rightarrow> handler \<Rightarrow> state \<Rightarrow> state" where
  "subscribe src h s =
     s\<lparr>subscriptions := subscriptions s @ [(nextId s, src, h)], nextId := Suc (nextId s)\<rparr>"

definition unsubscribe :: "nat \<Rightarrow> state \<Rightarrow> state" where
  "unsubscribe i s = s\<lparr>subscriptions := filter (\<lambda>sub. fst sub \<noteq> i) (subscriptions s)\<rparr>"

definition lookupSub :: "nat \<Rightarrow> state \<Rightarrow> subscription option" where
  "lookupSub i s = find (\<lambda>sub. fst sub = i) (subscriptions s)"

definition isOpen :: "nat \<Rightarrow> state \<Rightarrow> bool" where
  "isOpen i s = (lookupSub i s \<noteq> None)"

definition subscribers :: "source \<Rightarrow> state \<Rightarrow> subscription list" where
  "subscribers src s = filter (\<lambda>sub. fst (snd sub) = src) (subscriptions s)"

section \<open>The methods of the component\<close>

definition msgUnavailable :: string where
  "msgUnavailable = ''Die Spracherkennung wird in diesem Browser nicht unterst'' @ [uUml]
     @ ''tzt. Bitte nutzen Sie Google Chrome.''"

definition msgDeleted :: string where
  "msgDeleted = ''Der Termin wurde erfolgreich gel'' @ [oUml] @ ''scht!''"

definition msgNotFound :: string where
  "msgNotFound = ''Es gibt keinen Termin mit diesem Namen!''"

definition msgGoodbye :: string where
  "msgGoodbye = ''Man h'' @ [oUml] @ ''rt sich.''"

definition msgUnsupported :: string where
  "msgUnsupported = ''Dieses Sprachkommando wird nicht unterst'' @ [uUml] @ ''tzt.''"

definition msgCreated :: string where
  "msgCreated = ''Sie haben erfolgreich einen neuen Termin angelegt.''"

definition displayMessage :: "jsval \<Rightarrow> state \<Rightarrow> state" where
  "displayMessage errorMessage s = doCall (DisplayMessage errorMessage) s"

text \<open>Subscribe and push the subscription onto
  \<open>currentSpeechRecognitionServiceSubscriptions\<close>.\<close>

definition subscribePushed :: "source \<Rightarrow> handler \<Rightarrow> state \<Rightarrow> state" where
  "subscribePushed src h s =
     (let s' = subscribe src h s
      in s'\<lparr>currentSpeechRecognitionServiceSubscriptions :=
              currentSpeechRecognitionServiceSubscriptions s' @ [nextId s]\<rparr>)"

definition setupSpeechRecognitionBehaviour :: "state \<Rightarrow> state" where
  "setupSpeechRecognitionBehaviour s =
     subscribePushed OnSpeechRecognitionError RecognitionErrorHandler
       (subscribePushed OnSpeechRecognitionEnded RecognitionEndedHandler
         (subscribePushed OnSpeechRecognitionStarted RecognitionStartedHandler
           (subscribePushed OnSpeechRecognitionResultAvailable ResultAvailableHandler s)))"

definition unsubscribeFromAllSubscriptions :: "state \<Rightarrow> state" where
  "unsubscribeFromAllSubscriptions s =
     (fold unsubscribe (currentSpeechRecognitionServiceSubscriptions s) s)
       \<lparr>currentSpeechRecognitionServiceSubscriptions := []\<rparr>"

definition restartSpeechRecognition :: "state \<Rightarrow> state" where
  "restartSpeechRecognition s =
     doCall StartRecognition
       (setupSpeechRecognitionBehaviour
         (doCall InitRecognition
           (doCall StopRecognition
             (unsubscribeFromAllSubscriptions s))))"

definition openHelpDialog :: "state \<Rightarrow> state" where
  "openHelpDialog s = subscribe AfterClosed HelpDialogClosedHandler (doCall OpenHelpDialog s)"

definition openAndHandlePathwayAppointmentCreatorDialog :: "state \<Rightarrow> state" where
  "openAndHandlePathwayAppointmentCreatorDialog s =
     subscribe AfterClosed CreatorDialogClosedHandler
       (doCall OpenCreatorDialog
         (unsubscribeFromAllSubscriptions
           ((doCall StopRecognition s)\<lparr>pathIsListening := False\<rparr>)))"

text \<open>The callback of \<open>afterClosed\<close> of the appointment-creation dialog.\<close>

definition onCreatorDialogClosed :: "jsval \<Rightarrow> state \<Rightarrow> state" where
  "onCreatorDialogClosed result s =
     (if truthy result then
        (let s1 = subscribe OnSpeechEnd CreatorSpeechEndHandler s
         in if isPathwayEvent result
            then doCall (SpeakUtterance (JStr msgCreated)) (doCall (NewPathwayEventCreated result) s1)
            else (let errorMessage = getProp result ''data''
                  in doCall (SpeakUtterance errorMessage) (displayMessage errorMessage s1)))
      else restartSpeechRecognition s)"

text \<open>The name spoken after the command word of a delete or show command:
  \<open>recognitionResult.substr(recognitionResult.indexOf(" ")).trim()\<close>.\<close>

definition eventNameOf :: "string \<Rightarrow> string" where
  "eventNameOf recognitionResult =
     trim (substr recognitionResult (indexOf recognitionResult CHR '' ''))"

text \<open>The callback for a recognition result. The \<open>switch\<close> compares the lower-cased
  transcript with \<open>match(...)?.input\<close> of each pattern in turn, which is the transcript
  itself when the pattern matches and \<open>undefined\<close> otherwise.\<close>

definition onResultAvailable :: "string \<Rightarrow> state \<Rightarrow> state" where
  "onResultAvailable transcript s0 =
     (let s = doCall StopRecognition s0;
          recognitionResult = toLowerCase transcript
      in if matches recognitionResult reNeuerTermin then
           openAndHandlePathwayAppointmentCreatorDialog s
         else if matches recognitionResult reAufEinWiederhoeren then
           doCall StopRecognition (displayMessage (JStr msgGoodbye) s)
         else if matches recognitionResult reHilfe then
           openHelpDialog s
         else if matches recognitionResult reLoesche then
           (let eventName = eventNameOf recognitionResult;
                s1 = (if eventName \<noteq> [] then doCall (UserWantsDoDeleteEvent eventName) s else s)
            in subscribe OnSpeechEnd DeleteSpeechEndHandler (restartSpeechRecognition s1))
         else if matches recognitionResult reZeige then
           (let eventName = eventNameOf recognitionResult;
                s1 = (if eventName \<noteq> [] then doCall (UserWantsToOpenEvent eventName) s else s)
            in restartSpeechRecognition s1)
         else
           restartSpeechRecognition (displayMessage (JStr msgUnsupported) s))"

text \<open>The callback for a deletion result of the pathway service.\<close>

definition onPathwayEventDeleted :: "bool \<Rightarrow> state \<Rightarrow> state" where
  "onPathwayEventDeleted result s =
     (let s1 = subscribe OnSpeechStart DeletedSpeechStartHandler s
      in if result = True then doCall (SpeakUtterance (JStr msgDeleted)) s1
         else doCall (SpeakUtterance (JStr msgNotFound)) s1)"

definition onVoiceListUpdated :: "voice list \<Rightarrow> state \<Rightarrow> state" where
  "onVoiceListUpdated allVoices s =
     (let germanVoices = filter (\<lambda>voice. lang voice = ''de-DE'') allVoices
      in s\<lparr>availableVoices := germanVoices\<rparr>)"

definition onVoiceChanged :: "string \<Rightarrow> state \<Rightarrow> state" where
  "onVoiceChanged chosenVoiceURI s =
     (case find (\<lambda>voice. voiceURI voice = chosenVoiceURI) (availableVoices s) of
        Some chosenVoice \<Rightarrow> doCall (SetVoice chosenVoice) s
      | None \<Rightarrow> s)"

text \<open>\<open>ngOnInit\<close>; the parameter is what \<open>initRecognition\<close> of the recognition service
  returns.\<close>

definition ngOnInit :: "bool \<Rightarrow> state \<Rightarrow> state" where
  "ngOnInit available s0 =
     (let s1 = (doCall InitRecognition s0)\<lparr>speechRecognitionAvailable := available\<rparr>;
          s2 = (if \<not> speechRecognitionAvailable s1
                then displayMessage (JStr msgUnavailable) s1
                else doCall StartRecognition (setupSpeechRecognitionBehaviour s1));
          s3 = subscribe OnPathwayEventDeleted PathwayEventDeletedHandler s2
      in subscribe OnVoiceListUpdated VoiceListUpdatedHandler s3)"

section \<open>Events\<close>

text \<open>What the collaborators and the user can make happen: the events of the
  observables, the closing of a dialog (named by the identifier of its \<open>afterClosed\<close>
  subscription) with its result, and the three user actions of the template.\<close>

datatype event =
    RecognitionResult string
  | RecognitionStarted
  | RecognitionEnded
  | RecognitionError
  | SpeechStart
  | SpeechEnd
  | VoiceListUpdated "voice list"
  | PathwayEventDeleted bool
  | DialogClosed nat jsval
  | ActivateVoiceControl
  | DeactivateVoiceControl
  | VoiceChanged string

text \<open>Running the callback of subscription \<open>i\<close> on an event of its observable. The
  callbacks that read the payload are subscribed to an observable that carries it. The
  one-shot callbacks unsubscribe themselves first.\<close>

definition runHandler :: "handler \<Rightarrow> nat \<Rightarrow> event \<Rightarrow> state \<Rightarrow> state" where
  "runHandler h i e s =
     (case h of
        ResultAvailableHandler \<Rightarrow>
          (case e of RecognitionResult transcript \<Rightarrow> onResultAvailable transcript s | _ \<Rightarrow> s)
      | RecognitionStartedHandler \<Rightarrow> s\<lparr>pathIsListening := True\<rparr>
      | RecognitionEndedHandler \<Rightarrow> s\<lparr>pathIsListening := False\<rparr>
      | RecognitionErrorHandler \<Rightarrow> restartSpeechRecognition s
      | PathwayEventDeletedHandler \<Rightarrow>
          (case e of PathwayEventDeleted result \<Rightarrow> onPathwayEventDeleted result s | _ \<Rightarrow> s)
      | DeletedSpeechStartHandler \<Rightarrow> doCall StopRecognition (unsubscribe i s)
      | VoiceListUpdatedHandler \<Rightarrow>
          (case e of VoiceListUpdated allVoices \<Rightarrow> onVoiceListUpdated allVoices s | _ \<Rightarrow> s)
      | DeleteSpeechEndHandler \<Rightarrow> restartSpeechRecognition (unsubscribe i s)
      | CreatorSpeechEndHandler \<Rightarrow> restartSpeechRecognition (unsubscribe i s)
      | HelpDialogClosedHandler \<Rightarrow> restartSpeechRecognition s
      | CreatorDialogClosedHandler \<Rightarrow>
          (case e of DialogClosed d result \<Rightarrow> onCreatorDialogClosed result s | _ \<Rightarrow> s))"

text \<open>Modelled from the spec: how the absent services deliver an event. It goes to the
  subscriptions that were open on its observable when it fired, in the order they were
  made; a subscription that has been closed in the meantime gets nothing.\<close>

definition deliver :: "event \<Rightarrow> nat \<Rightarrow> state \<Rightarrow> state" where
  "deliver e i s =
     (case lookupSub i s of
        Some sub \<Rightarrow> runHandler (snd (snd sub)) i e s
      | None \<Rightarrow> s)"

definition dispatch :: "source \<Rightarrow> event \<Rightarrow> state \<Rightarrow> state" where
  "dispatch src e s = fold (deliver e) (map fst (subscribers src s)) s"

text \<open>Modelled from the spec: the absent dialog service. \<open>afterClosed\<close> of a dialog emits
  the result once and completes, which closes its subscription. An identifier that names
  no open dialog makes no event.\<close>

definition dialogClosed :: "nat \<Rightarrow> jsval \<Rightarrow> state \<Rightarrow> state" where
  "dialogClosed d result s =
     (case lookupSub d s of
        Some sub \<Rightarrow>
          if fst (snd sub) = AfterClosed
          then unsubscribe d (runHandler (snd (snd sub)) d (DialogClosed d result) s)
          else s
      | None \<Rightarrow> s)"

fun step :: "event \<Rightarrow> state \<Rightarrow> state" where
  "step (RecognitionResult transcript) s = dispatch OnSpeechRecognitionResultAvailable (RecognitionResult transcript) s"
| "step RecognitionStarted s = dispatch OnSpeechRecognitionStarted RecognitionStarted s"
| "step RecognitionEnded s = dispatch OnSpeechRecognitionEnded RecognitionEnded s"
| "step RecognitionError s = dispatch OnSpeechRecognitionError RecognitionError s"
| "step SpeechStart s = dispatch OnSpeechStart SpeechStart s"
| "step SpeechEnd s = dispatch OnSpeechEnd SpeechEnd s"
| "step (VoiceListUpdated allVoices) s = dispatch OnVoiceListUpdated (VoiceListUpdated allVoices) s"
| "step (PathwayEventDeleted result) s = dispatch OnPathwayEventDeleted (PathwayEventDeleted result) s"
| "step (DialogClosed d result) s = dialogClosed d result s"
| "step ActivateVoiceControl s = restartSpeechRecognition s"
| "step DeactivateVoiceControl s = doCall StopRecognition s"
| "step (VoiceChanged chosenVoiceURI) s = onVoiceChanged chosenVoiceURI s"

text \<open>The component after \<open>ngOnInit\<close> and a sequence of events.\<close>

definition run :: "bool \<Rightarrow> event list \<Rightarrow> state" where
  "run available es = fold step es (ngOnInit available constructed)"

section \<open>Well-formed states\<close>

definition restartCalls :: "call list" where
  "restartCalls = [StopRecognition, InitRecognition, StartRecognition]"

text \<open>The four subscriptions made by \<open>setupSpeechRecognitionBehaviour\<close> when the next
  fresh identifier is \<open>n\<close>.\<close>

definition newRecognitionSubs :: "nat \<Rightarrow> subscription list" where
  "newRecognitionSubs n =
     [(n, OnSpeechRecognitionResultAvailable, ResultAvailableHandler),
      (Suc n, OnSpeechRecognitionStarted, RecognitionStartedHandler),
      (Suc (Suc n), OnSpeechRecognitionEnded, RecognitionEndedHandler),
      (Suc (Suc (Suc n)), OnSpeechRecognitionError, RecognitionErrorHandler)]"

text \<open>The four callbacks installed by \<open>setupSpeechRecognitionBehaviour\<close>.\<close>

fun isRecognitionHandler :: "handler \<Rightarrow> bool" where
  "isRecognitionHandler ResultAvailableHandler = True"
| "isRecognitionHandler RecognitionStartedHandler = True"
| "isRecognitionHandler RecognitionEndedHandler = True"
| "isRecognitionHandler RecognitionErrorHandler = True"
| "isRecognitionHandler h = False"

text \<open>The observable each callback is subscribed to in the source.\<close>

fun sourceOf :: "handler \<Rightarrow> source" where
  "sourceOf ResultAvailableHandler = OnSpeechRecognitionResultAvailable"
| "sourceOf RecognitionStartedHandler = OnSpeechRecognitionStarted"
| "sourceOf RecognitionEndedHandler = OnSpeechRecognitionEnded"
| "sourceOf RecognitionErrorHandler = OnSpeechRecognitionError"
| "sourceOf PathwayEventDeletedHandler = OnPathwayEventDeleted"
| "sourceOf DeletedSpeechStartHandler = OnSpeechStart"
| "sourceOf VoiceListUpdatedHandler = OnVoiceListUpdated"
| "sourceOf DeleteSpeechEndHandler = OnSpeechEnd"
| "sourceOf CreatorSpeechEndHandler = OnSpeechEnd"
| "sourceOf HelpDialogClosedHandler = AfterClosed"
| "sourceOf CreatorDialogClosedHandler = AfterClosed"

text \<open>
  What holds of every state the component reaches: subscription identifiers are unique
  and older than \<open>nextId\<close>, every callback sits on its own observable, the open
  recognition callbacks are exactly registered in
  \<open>currentSpeechRecognitionServiceSubscriptions\<close>, and the callbacks subscribed once by
  \<open>ngOnInit\<close> stay subscribed.
\<close>

definition wellFormed :: "state \<Rightarrow> bool" where
  "wellFormed s \<longleftrightarrow>
     distinct (map fst (subscriptions s)) \<and>
     (\<forall>sub \<in> set (subscriptions s).
        fst sub < nextId s \<and> fst (snd sub) = sourceOf (snd (snd sub)) \<and>
        (isRecognitionHandler (snd (snd sub)) \<longleftrightarrow>
           fst sub \<in> set (currentSpeechRecognitionServiceSubscriptions s))) \<and>
     (\<forall>i \<in> set (currentSpeechRecognitionServiceSubscriptions s). i < nextId s) \<and>
     length (subscribers OnSpeechRecognitionResultAvailable s) \<le> 1 \<and>
     (\<exists>i. subscribers OnVoiceListUpdated s = [(i, OnVoiceListUpdated, VoiceListUpdatedHandler)]) \<and>
     (\<exists>i. subscribers OnPathwayEventDeleted s =
        [(i, OnPathwayEventDeleted, PathwayEventDeletedHandler)])"

text \<open>The calls that show the user a notice.\<close>

fun isNotice :: "call \<Rightarrow> bool" where
  "isNotice (DisplayMessage m) = True"
| "isNotice c = False"

text \<open>The callbacks that can be open when recognition was unavailable at
  initialisation and the user has not pressed the microphone button since.\<close>

fun isIdleHandler :: "handler \<Rightarrow> bool" where
  "isIdleHandler PathwayEventDeletedHandler = True"
| "isIdleHandler VoiceListUpdatedHandler = True"
| "isIdleHandler DeletedSpeechStartHandler = True"
| "isIdleHandler h = False"

definition idle :: "state \<Rightarrow> bool" where
  "idle s \<longleftrightarrow>
     currentSpeechRecognitionServiceSubscriptions s = [] \<and>
     \<not> pathIsListening s \<and>
     (\<forall>sub \<in> set (subscriptions s). isIdleHandler (snd (snd sub))) \<and>
     StartRecognition \<notin> set (calls s) \<and>
     filter isNotice (calls s) = [DisplayMessage (JStr msgUnavailable)]"

text \<open>The number of \<open>startRecognition\<close> calls made so far, and the recognition
  callbacks that are subscribed.\<close>

definition starts :: "state \<Rightarrow> nat" where
  "starts s = count_list (calls s) StartRecognition"

definition recognitionCallbacks :: "state \<Rightarrow> subscription list" where
  "recognitionCallbacks s =
     filter (\<lambda>sub. isRecognitionHandler (snd (snd sub))) (subscriptions s)"



section \<open>Subscriptions and well-formed states\<close>

lemma fold_unsubscribe:
  "fold unsubscribe js s =
     s\<lparr>subscriptions := filter (\<lambda>sub. fst sub \<notin> set js) (subscriptions s)\<rparr>"
proof (induction js arbitrary: s)
  case Nil
  show ?case by simp
next
  case (Cons j js)
  have "fold unsubscribe (j # js) s = fold unsubscribe js (unsubscribe j s)"
    by simp
  also have "\<dots> = (unsubscribe j s)\<lparr>subscriptions :=
      filter (\<lambda>sub. fst sub \<notin> set js) (subscriptions (unsubscribe j s))\<rparr>"
    by (rule Cons.IH)
  also have "\<dots> = s\<lparr>subscriptions := filter (\<lambda>sub. fst sub \<notin> set (j # js)) (subscriptions s)\<rparr>"
    by (simp add: unsubscribe_def conj_commute)
  finally show ?case .
qed

lemma unsubscribeFromAllSubscriptions_eq:
  "unsubscribeFromAllSubscriptions s =
     s\<lparr>subscriptions := filter (\<lambda>sub. fst sub \<notin> set (currentSpeechRecognitionServiceSubscriptions s))
                            (subscriptions s),
       currentSpeechRecognitionServiceSubscriptions := []\<rparr>"
  by (simp add: unsubscribeFromAllSubscriptions_def fold_unsubscribe)

lemma setupSpeechRecognitionBehaviour_eq:
  "setupSpeechRecognitionBehaviour s =
     s\<lparr>subscriptions := subscriptions s @ newRecognitionSubs (nextId s),
       nextId := nextId s + 4,
       currentSpeechRecognitionServiceSubscriptions :=
         currentSpeechRecognitionServiceSubscriptions s @ map fst (newRecognitionSubs (nextId s))\<rparr>"
  by (simp add: setupSpeechRecognitionBehaviour_def subscribePushed_def subscribe_def
      newRecognitionSubs_def Let_def)

lemma restartSpeechRecognition_eq:
  "restartSpeechRecognition s =
     s\<lparr>subscriptions :=
         filter (\<lambda>sub. fst sub \<notin> set (currentSpeechRecognitionServiceSubscriptions s))
           (subscriptions s) @ newRecognitionSubs (nextId s),
       nextId := nextId s + 4,
       currentSpeechRecognitionServiceSubscriptions := map fst (newRecognitionSubs (nextId s)),
       trace := trace s @ map (\<lambda>c. (c, pathIsListening s)) restartCalls\<rparr>"
  by (simp add: restartSpeechRecognition_def setupSpeechRecognitionBehaviour_eq
      unsubscribeFromAllSubscriptions_eq doCall_def restartCalls_def)


lemma subscribers_simps [simp]:
  "subscribers src (doCall c s) = subscribers src s"
  "subscribers src (s\<lparr>pathIsListening := b\<rparr>) = subscribers src s"
  "subscribers src (s\<lparr>availableVoices := vs\<rparr>) = subscribers src s"
  "subscribers src (s\<lparr>speechRecognitionAvailable := b\<rparr>) = subscribers src s"
  "subscribers src (s\<lparr>currentSpeechRecognitionServiceSubscriptions := js\<rparr>) = subscribers src s"
  "subscribers src (subscribe src' h s) =
     subscribers src s @ (if src' = src then [(nextId s, src', h)] else [])"
  by (auto simp: subscribers_def doCall_def subscribe_def)

lemma subscribers_filter:
  "subscribers src (s\<lparr>subscriptions := filter P (subscriptions s)\<rparr>) = filter P (subscribers src s)"
  by (auto simp: subscribers_def intro!: filter_cong)

lemma subscribers_unsubscribe [simp]:
  "subscribers src (unsubscribe i s) = filter (\<lambda>sub. fst sub \<noteq> i) (subscribers src s)"
  by (simp add: unsubscribe_def subscribers_filter)

lemma set_subscribers: "set (subscribers src s) = {sub \<in> set (subscriptions s). fst (snd sub) = src}"
  by (auto simp: subscribers_def)

lemma wellFormedI:
  assumes "distinct (map fst (subscriptions s))"
    and "\<And>i src h. (i, src, h) \<in> set (subscriptions s) \<Longrightarrow>
           i < nextId s \<and> src = sourceOf h \<and>
           (isRecognitionHandler h \<longleftrightarrow> i \<in> set (currentSpeechRecognitionServiceSubscriptions s))"
    and "\<And>i. i \<in> set (currentSpeechRecognitionServiceSubscriptions s) \<Longrightarrow> i < nextId s"
    and "length (subscribers OnSpeechRecognitionResultAvailable s) \<le> 1"
    and "\<exists>i. subscribers OnVoiceListUpdated s = [(i, OnVoiceListUpdated, VoiceListUpdatedHandler)]"
    and "\<exists>i. subscribers OnPathwayEventDeleted s =
           [(i, OnPathwayEventDeleted, PathwayEventDeletedHandler)]"
  shows "wellFormed s"
  unfolding wellFormed_def using assms by (intro conjI ballI) auto

lemma wellFormed_distinct: "wellFormed s \<Longrightarrow> distinct (map fst (subscriptions s))"
  by (simp add: wellFormed_def)

lemma wellFormed_sub:
  "wellFormed s \<Longrightarrow> (i, src, h) \<in> set (subscriptions s) \<Longrightarrow>
     i < nextId s \<and> src = sourceOf h \<and>
     (isRecognitionHandler h \<longleftrightarrow> i \<in> set (currentSpeechRecognitionServiceSubscriptions s))"
  unfolding wellFormed_def by fastforce

lemma wellFormed_current:
  "wellFormed s \<Longrightarrow> i \<in> set (currentSpeechRecognitionServiceSubscriptions s) \<Longrightarrow> i < nextId s"
  by (simp add: wellFormed_def)

lemma wellFormed_result:
  "wellFormed s \<Longrightarrow> length (subscribers OnSpeechRecognitionResultAvailable s) \<le> 1"
  by (simp add: wellFormed_def)

lemma wellFormed_voice:
  "wellFormed s \<Longrightarrow>
     \<exists>i. subscribers OnVoiceListUpdated s = [(i, OnVoiceListUpdated, VoiceListUpdatedHandler)]"
  by (simp add: wellFormed_def)

lemma wellFormed_pathway:
  "wellFormed s \<Longrightarrow>
     \<exists>i. subscribers OnPathwayEventDeleted s =
       [(i, OnPathwayEventDeleted, PathwayEventDeletedHandler)]"
  by (simp add: wellFormed_def)

lemma wellFormed_doCall [simp]: "wellFormed (doCall c s) = wellFormed s"
  by (simp add: wellFormed_def) (simp add: doCall_def)

lemma wellFormed_pathIsListening [simp]: "wellFormed (s\<lparr>pathIsListening := b\<rparr>) = wellFormed s"
  by (simp add: wellFormed_def)

lemma wellFormed_availableVoices [simp]: "wellFormed (s\<lparr>availableVoices := vs\<rparr>) = wellFormed s"
  by (simp add: wellFormed_def)

lemma wellFormed_speechRecognitionAvailable [simp]:
  "wellFormed (s\<lparr>speechRecognitionAvailable := b\<rparr>) = wellFormed s"
  by (simp add: wellFormed_def)

lemma sourceOf_eq_iff [simp]:
  "sourceOf h = OnSpeechRecognitionResultAvailable \<longleftrightarrow> h = ResultAvailableHandler"
  "sourceOf h = OnVoiceListUpdated \<longleftrightarrow> h = VoiceListUpdatedHandler"
  "sourceOf h = OnPathwayEventDeleted \<longleftrightarrow> h = PathwayEventDeletedHandler"
  "sourceOf h = OnSpeechStart \<longleftrightarrow> h = DeletedSpeechStartHandler"
  "sourceOf h = OnSpeechEnd \<longleftrightarrow> h = DeleteSpeechEndHandler \<or> h = CreatorSpeechEndHandler"
  "sourceOf h = AfterClosed \<longleftrightarrow> h = HelpDialogClosedHandler \<or> h = CreatorDialogClosedHandler"
  by (cases h; simp)+

lemma wellFormed_subscribe:
  assumes wf: "wellFormed s" and h: "\<not> isRecognitionHandler h" "src = sourceOf h"
    "src \<noteq> OnVoiceListUpdated" "src \<noteq> OnPathwayEventDeleted"
  shows "wellFormed (subscribe src h s)"
proof (rule wellFormedI)
  have fresh: "nextId s \<notin> fst ` set (subscriptions s)"
    using wellFormed_sub[OF wf] by force
  show "distinct (map fst (subscriptions (subscribe src h s)))"
    using wellFormed_distinct[OF wf] fresh by (simp add: subscribe_def)
  show "i < nextId (subscribe src h s) \<and> src' = sourceOf h' \<and>
        (isRecognitionHandler h' \<longleftrightarrow>
           i \<in> set (currentSpeechRecognitionServiceSubscriptions (subscribe src h s)))"
    if "(i, src', h') \<in> set (subscriptions (subscribe src h s))" for i src' h'
  proof (cases "(i, src', h') \<in> set (subscriptions s)")
    case True
    then show ?thesis using wellFormed_sub[OF wf True] by (simp add: subscribe_def)
  next
    case False
    then have "i = nextId s" "src' = src" "h' = h"
      using that by (auto simp: subscribe_def)
    then show ?thesis
      using h wellFormed_current[OF wf, of "nextId s"] by (auto simp: subscribe_def)
  qed
  show "i < nextId (subscribe src h s)"
    if "i \<in> set (currentSpeechRecognitionServiceSubscriptions (subscribe src h s))" for i
    using that wellFormed_current[OF wf, of i] by (simp add: subscribe_def)
  have "src \<noteq> OnSpeechRecognitionResultAvailable"
    using h by auto
  then show "length (subscribers OnSpeechRecognitionResultAvailable (subscribe src h s)) \<le> 1"
    using wellFormed_result[OF wf] by simp
  show "\<exists>i. subscribers OnVoiceListUpdated (subscribe src h s) =
          [(i, OnVoiceListUpdated, VoiceListUpdatedHandler)]"
    using wellFormed_voice[OF wf] h by simp
  show "\<exists>i. subscribers OnPathwayEventDeleted (subscribe src h s) =
          [(i, OnPathwayEventDeleted, PathwayEventDeletedHandler)]"
    using wellFormed_pathway[OF wf] h by simp
qed

text \<open>Removing subscriptions keeps a state well-formed as long as the two permanent
  subscriptions of \<open>ngOnInit\<close> stay.\<close>

lemma wellFormed_filter:
  assumes wf: "wellFormed s"
    and keep: "\<And>i src h. (i, src, h) \<in> set (subscriptions s) \<Longrightarrow>
       h = VoiceListUpdatedHandler \<or> h = PathwayEventDeletedHandler \<Longrightarrow> P (i, src, h)"
  shows "wellFormed (s\<lparr>subscriptions := filter P (subscriptions s)\<rparr>)"
proof (rule wellFormedI)
  let ?s = "s\<lparr>subscriptions := filter P (subscriptions s)\<rparr>"
  show "distinct (map fst (subscriptions ?s))"
    using wellFormed_distinct[OF wf] by (simp add: distinct_map_filter)
  show "i < nextId ?s \<and> src = sourceOf h \<and>
        (isRecognitionHandler h \<longleftrightarrow> i \<in> set (currentSpeechRecognitionServiceSubscriptions ?s))"
    if "(i, src, h) \<in> set (subscriptions ?s)" for i src h
    using that wellFormed_sub[OF wf, of i src h] by simp
  show "i < nextId ?s" if "i \<in> set (currentSpeechRecognitionServiceSubscriptions ?s)" for i
    using that wellFormed_current[OF wf, of i] by simp
  show "length (subscribers OnSpeechRecognitionResultAvailable ?s) \<le> 1"
    using wellFormed_result[OF wf]
      length_filter_le[of P "subscribers OnSpeechRecognitionResultAvailable s"]
    by (simp only: subscribers_filter)
  obtain v where v: "subscribers OnVoiceListUpdated s = [(v, OnVoiceListUpdated, VoiceListUpdatedHandler)]"
    using wellFormed_voice[OF wf] by blast
  then have "(v, OnVoiceListUpdated, VoiceListUpdatedHandler) \<in> set (subscriptions s)"
    using set_subscribers[of OnVoiceListUpdated s] by auto
  then have "P (v, OnVoiceListUpdated, VoiceListUpdatedHandler)"
    using keep by blast
  then show "\<exists>i. subscribers OnVoiceListUpdated ?s = [(i, OnVoiceListUpdated, VoiceListUpdatedHandler)]"
    by (simp add: subscribers_filter v)
  obtain p where p: "subscribers OnPathwayEventDeleted s =
      [(p, OnPathwayEventDeleted, PathwayEventDeletedHandler)]"
    using wellFormed_pathway[OF wf] by blast
  then have "(p, OnPathwayEventDeleted, PathwayEventDeletedHandler) \<in> set (subscriptions s)"
    using set_subscribers[of OnPathwayEventDeleted s] by auto
  then have "P (p, OnPathwayEventDeleted, PathwayEventDeletedHandler)"
    using keep by blast
  then show "\<exists>i. subscribers OnPathwayEventDeleted ?s =
      [(i, OnPathwayEventDeleted, PathwayEventDeletedHandler)]"
    by (simp add: subscribers_filter p)
qed

lemma wellFormed_unsubscribe:
  assumes "wellFormed s"
    and "\<And>src h. (i, src, h) \<in> set (subscriptions s) \<Longrightarrow>
       h \<noteq> VoiceListUpdatedHandler \<and> h \<noteq> PathwayEventDeletedHandler"
  shows "wellFormed (unsubscribe i s)"
  unfolding unsubscribe_def using assms by (intro wellFormed_filter) auto

lemma wellFormed_unsubscribeFromAllSubscriptions:
  assumes wf: "wellFormed s"
  shows "wellFormed (unsubscribeFromAllSubscriptions s)"
proof -
  let ?P = "\<lambda>sub. fst sub \<notin> set (currentSpeechRecognitionServiceSubscriptions s)"
  let ?t = "s\<lparr>subscriptions := filter ?P (subscriptions s)\<rparr>"
  have "?P (i, src, h)"
    if "(i, src, h) \<in> set (subscriptions s)"
      "h = VoiceListUpdatedHandler \<or> h = PathwayEventDeletedHandler" for i src h
    using wellFormed_sub[OF wf that(1)] that(2) by auto
  then have wft: "wellFormed ?t"
    by (intro wellFormed_filter[OF wf])
  have eq: "unsubscribeFromAllSubscriptions s = ?t\<lparr>currentSpeechRecognitionServiceSubscriptions := []\<rparr>"
    by (simp add: unsubscribeFromAllSubscriptions_eq)
  show ?thesis
    unfolding eq
  proof (rule wellFormedI)
    let ?u = "?t\<lparr>currentSpeechRecognitionServiceSubscriptions := []\<rparr>"
    show "distinct (map fst (subscriptions ?u))"
      using wellFormed_distinct[OF wft] by simp
    show "i < nextId ?u \<and> src = sourceOf h \<and>
        (isRecognitionHandler h \<longleftrightarrow> i \<in> set (currentSpeechRecognitionServiceSubscriptions ?u))"
      if "(i, src, h) \<in> set (subscriptions ?u)" for i src h
      using that wellFormed_sub[OF wf, of i src h] by simp
    show "i < nextId ?u" if "i \<in> set (currentSpeechRecognitionServiceSubscriptions ?u)" for i
      using that by simp
    show "length (subscribers OnSpeechRecognitionResultAvailable ?u) \<le> 1"
      using wellFormed_result[OF wft] by simp
    show "\<exists>i. subscribers OnVoiceListUpdated ?u = [(i, OnVoiceListUpdated, VoiceListUpdatedHandler)]"
      using wellFormed_voice[OF wft] by simp
    show "\<exists>i. subscribers OnPathwayEventDeleted ?u =
        [(i, OnPathwayEventDeleted, PathwayEventDeletedHandler)]"
      using wellFormed_pathway[OF wft] by simp
  qed
qed

lemma unsubscribeFromAllSubscriptions_fields [simp]:
  "currentSpeechRecognitionServiceSubscriptions (unsubscribeFromAllSubscriptions s) = []"
  "subscriptions (unsubscribeFromAllSubscriptions s) =
     filter (\<lambda>sub. fst sub \<notin> set (currentSpeechRecognitionServiceSubscriptions s)) (subscriptions s)"
  "nextId (unsubscribeFromAllSubscriptions s) = nextId s"
  "trace (unsubscribeFromAllSubscriptions s) = trace s"
  "pathIsListening (unsubscribeFromAllSubscriptions s) = pathIsListening s"
  "availableVoices (unsubscribeFromAllSubscriptions s) = availableVoices s"
  "speechRecognitionAvailable (unsubscribeFromAllSubscriptions s) = speechRecognitionAvailable s"
  by (simp_all add: unsubscribeFromAllSubscriptions_eq)

lemma no_recognition_handler_after_unsubscribe:
  assumes wf: "wellFormed s" and "(i, src, h) \<in> set (subscriptions (unsubscribeFromAllSubscriptions s))"
  shows "\<not> isRecognitionHandler h"
  using assms wellFormed_sub[OF wf, of i src h] by simp

lemma wellFormed_setupSpeechRecognitionBehaviour:
  assumes wf: "wellFormed s"
    and empty: "currentSpeechRecognitionServiceSubscriptions s = []"
  shows "wellFormed (setupSpeechRecognitionBehaviour s)"
proof (rule wellFormedI)
  let ?u = "setupSpeechRecognitionBehaviour s"
  have subs: "subscriptions ?u = subscriptions s @ newRecognitionSubs (nextId s)"
    and nxt: "nextId ?u = nextId s + 4"
    and cur: "currentSpeechRecognitionServiceSubscriptions ?u = map fst (newRecognitionSubs (nextId s))"
    by (simp_all add: setupSpeechRecognitionBehaviour_eq empty)
  have old: "i < nextId s \<and> src = sourceOf h \<and> \<not> isRecognitionHandler h"
    if "(i, src, h) \<in> set (subscriptions s)" for i src h
    using wellFormed_sub[OF wf that] empty by simp
  show "distinct (map fst (subscriptions ?u))"
    using wellFormed_distinct[OF wf] old by (fastforce simp: subs newRecognitionSubs_def)
  show "i < nextId ?u \<and> src = sourceOf h \<and>
      (isRecognitionHandler h \<longleftrightarrow> i \<in> set (currentSpeechRecognitionServiceSubscriptions ?u))"
    if "(i, src, h) \<in> set (subscriptions ?u)" for i src h
  proof (cases "(i, src, h) \<in> set (subscriptions s)")
    case True
    then show ?thesis using old[OF True] by (auto simp: nxt cur newRecognitionSubs_def)
  next
    case False
    then have "(i, src, h) \<in> set (newRecognitionSubs (nextId s))"
      using that by (simp add: subs)
    then show ?thesis by (auto simp: nxt cur newRecognitionSubs_def)
  qed
  show "i < nextId ?u" if "i \<in> set (currentSpeechRecognitionServiceSubscriptions ?u)" for i
    using that by (auto simp: nxt cur newRecognitionSubs_def)
  have "src \<noteq> OnSpeechRecognitionResultAvailable"
    if "(i, src, h) \<in> set (subscriptions s)" for i src h
    using old[OF that] by (cases h) auto
  then have "subscribers OnSpeechRecognitionResultAvailable s = []"
    by (auto simp: subscribers_def filter_empty_conv)
  then show "length (subscribers OnSpeechRecognitionResultAvailable ?u) \<le> 1"
    by (simp add: subscribers_def subs newRecognitionSubs_def)
  show "\<exists>i. subscribers OnVoiceListUpdated ?u = [(i, OnVoiceListUpdated, VoiceListUpdatedHandler)]"
    using wellFormed_voice[OF wf] by (simp add: subscribers_def subs newRecognitionSubs_def)
  show "\<exists>i. subscribers OnPathwayEventDeleted ?u =
      [(i, OnPathwayEventDeleted, PathwayEventDeletedHandler)]"
    using wellFormed_pathway[OF wf] by (simp add: subscribers_def subs newRecognitionSubs_def)
qed

lemma doCall_fields [simp]:
  "currentSpeechRecognitionServiceSubscriptions (doCall c s) =
     currentSpeechRecognitionServiceSubscriptions s"
  "subscriptions (doCall c s) = subscriptions s"
  "nextId (doCall c s) = nextId s"
  "trace (doCall c s) = trace s @ [(c, pathIsListening s)]"
  "pathIsListening (doCall c s) = pathIsListening s"
  "availableVoices (doCall c s) = availableVoices s"
  "speechRecognitionAvailable (doCall c s) = speechRecognitionAvailable s"
  by (simp_all add: doCall_def)

lemma wellFormed_restartSpeechRecognition:
  "wellFormed s \<Longrightarrow> wellFormed (restartSpeechRecognition s)"
  unfolding restartSpeechRecognition_def
  by (simp add: wellFormed_setupSpeechRecognitionBehaviour
      wellFormed_unsubscribeFromAllSubscriptions)

lemma restartSpeechRecognition_fields [simp]:
  "currentSpeechRecognitionServiceSubscriptions (restartSpeechRecognition s) =
     map fst (newRecognitionSubs (nextId s))"
  "subscriptions (restartSpeechRecognition s) =
     filter (\<lambda>sub. fst sub \<notin> set (currentSpeechRecognitionServiceSubscriptions s)) (subscriptions s)
       @ newRecognitionSubs (nextId s)"
  "nextId (restartSpeechRecognition s) = nextId s + 4"
  "trace (restartSpeechRecognition s) = trace s @ map (\<lambda>c. (c, pathIsListening s)) restartCalls"
  "pathIsListening (restartSpeechRecognition s) = pathIsListening s"
  "availableVoices (restartSpeechRecognition s) = availableVoices s"
  "speechRecognitionAvailable (restartSpeechRecognition s) = speechRecognitionAvailable s"
  by (simp_all add: restartSpeechRecognition_eq)

lemma subscribe_fields [simp]:
  "currentSpeechRecognitionServiceSubscriptions (subscribe src h s) =
     currentSpeechRecognitionServiceSubscriptions s"
  "subscriptions (subscribe src h s) = subscriptions s @ [(nextId s, src, h)]"
  "nextId (subscribe src h s) = Suc (nextId s)"
  "trace (subscribe src h s) = trace s"
  "pathIsListening (subscribe src h s) = pathIsListening s"
  "availableVoices (subscribe src h s) = availableVoices s"
  "speechRecognitionAvailable (subscribe src h s) = speechRecognitionAvailable s"
  by (simp_all add: subscribe_def)

lemma unsubscribe_fields [simp]:
  "currentSpeechRecognitionServiceSubscriptions (unsubscribe i s) =
     currentSpeechRecognitionServiceSubscriptions s"
  "subscriptions (unsubscribe i s) = filter (\<lambda>sub. fst sub \<noteq> i) (subscriptions s)"
  "nextId (unsubscribe i s) = nextId s"
  "trace (unsubscribe i s) = trace s"
  "pathIsListening (unsubscribe i s) = pathIsListening s"
  "availableVoices (unsubscribe i s) = availableVoices s"
  "speechRecognitionAvailable (unsubscribe i s) = speechRecognitionAvailable s"
  by (simp_all add: unsubscribe_def)

lemma wellFormed_openHelpDialog: "wellFormed s \<Longrightarrow> wellFormed (openHelpDialog s)"
  by (simp add: openHelpDialog_def wellFormed_subscribe)

lemma wellFormed_openAndHandlePathwayAppointmentCreatorDialog:
  "wellFormed s \<Longrightarrow> wellFormed (openAndHandlePathwayAppointmentCreatorDialog s)"
  by (simp add: openAndHandlePathwayAppointmentCreatorDialog_def wellFormed_subscribe
      wellFormed_unsubscribeFromAllSubscriptions)

lemma wellFormed_onCreatorDialogClosed:
  "wellFormed s \<Longrightarrow> wellFormed (onCreatorDialogClosed result s)"
  by (simp add: onCreatorDialogClosed_def wellFormed_subscribe wellFormed_restartSpeechRecognition
      displayMessage_def Let_def)

lemma wellFormed_onResultAvailable:
  "wellFormed s \<Longrightarrow> wellFormed (onResultAvailable transcript s)"
  by (simp add: onResultAvailable_def wellFormed_subscribe wellFormed_restartSpeechRecognition
      wellFormed_openHelpDialog wellFormed_openAndHandlePathwayAppointmentCreatorDialog
      displayMessage_def Let_def)

lemma wellFormed_onPathwayEventDeleted:
  "wellFormed s \<Longrightarrow> wellFormed (onPathwayEventDeleted result s)"
  by (simp add: onPathwayEventDeleted_def wellFormed_subscribe Let_def)

lemma wellFormed_onVoiceListUpdated:
  "wellFormed s \<Longrightarrow> wellFormed (onVoiceListUpdated allVoices s)"
  by (simp add: onVoiceListUpdated_def)

lemma wellFormed_onVoiceChanged:
  "wellFormed s \<Longrightarrow> wellFormed (onVoiceChanged chosenVoiceURI s)"
  by (simp add: onVoiceChanged_def split: option.splits)

lemma lookupSub_SomeD:
  "lookupSub i s = Some sub \<Longrightarrow> sub \<in> set (subscriptions s) \<and> fst sub = i"
  by (auto simp: lookupSub_def find_Some_iff)

lemma lookupSub_None_iff: "lookupSub i s = None \<longleftrightarrow> i \<notin> fst ` set (subscriptions s)"
  by (force simp: lookupSub_def find_None_iff)

lemma wellFormed_same_id:
  "wellFormed s \<Longrightarrow> (i, src, h) \<in> set (subscriptions s) \<Longrightarrow>
     (i, src', h') \<in> set (subscriptions s) \<Longrightarrow> src' = src \<and> h' = h"
  using eq_key_imp_eq_value[of "subscriptions s" i "(src, h)" "(src', h')"]
  by (auto dest: wellFormed_distinct)

lemma lookupSub_wellFormed:
  assumes "wellFormed s" "(i, src, h) \<in> set (subscriptions s)"
  shows "lookupSub i s = Some (i, src, h)"
proof (cases "lookupSub i s")
  case None
  then show ?thesis using assms(2) by (force simp: lookupSub_None_iff)
next
  case (Some sub)
  obtain j src' h' where sub: "sub = (j, src', h')" by (cases sub)
  then have "(i, src', h') \<in> set (subscriptions s)" "j = i"
    using lookupSub_SomeD[OF Some] by auto
  then show ?thesis
    using wellFormed_same_id[OF assms, of src' h'] Some sub by simp
qed

lemma wellFormed_unsubscribe_own:
  assumes wf: "wellFormed s" and sub: "(i, src, h) \<in> set (subscriptions s)"
    and h: "h \<noteq> VoiceListUpdatedHandler" "h \<noteq> PathwayEventDeletedHandler"
  shows "wellFormed (unsubscribe i s)"
  using wellFormed_same_id[OF wf sub] h by (intro wellFormed_unsubscribe[OF wf]) auto

lemma wellFormed_runHandler:
  assumes wf: "wellFormed s" and sub: "(i, src, h) \<in> set (subscriptions s)"
  shows "wellFormed (runHandler h i e s)"
proof (cases h)
  case ResultAvailableHandler
  then show ?thesis
    using wf by (simp add: runHandler_def wellFormed_onResultAvailable split: event.splits)
next
  case PathwayEventDeletedHandler
  then show ?thesis
    using wf by (simp add: runHandler_def wellFormed_onPathwayEventDeleted split: event.splits)
next
  case VoiceListUpdatedHandler
  then show ?thesis
    using wf by (simp add: runHandler_def wellFormed_onVoiceListUpdated split: event.splits)
next
  case CreatorDialogClosedHandler
  then show ?thesis
    using wf by (simp add: runHandler_def wellFormed_onCreatorDialogClosed split: event.splits)
next
  case DeletedSpeechStartHandler
  then show ?thesis
    using wellFormed_unsubscribe_own[OF wf sub] by (simp add: runHandler_def)
next
  case DeleteSpeechEndHandler
  then show ?thesis
    using wellFormed_unsubscribe_own[OF wf sub]
    by (simp add: runHandler_def wellFormed_restartSpeechRecognition)
next
  case CreatorSpeechEndHandler
  then show ?thesis
    using wellFormed_unsubscribe_own[OF wf sub]
    by (simp add: runHandler_def wellFormed_restartSpeechRecognition)
qed (use wf in \<open>simp_all add: runHandler_def wellFormed_restartSpeechRecognition\<close>)

lemma wellFormed_deliver: "wellFormed s \<Longrightarrow> wellFormed (deliver e i s)"
proof (cases "lookupSub i s")
  case None
  assume "wellFormed s"
  then show ?thesis by (simp add: deliver_def None)
next
  case (Some sub)
  assume wf: "wellFormed s"
  obtain j src h where "sub = (j, src, h)" by (cases sub)
  then have "(i, src, h) \<in> set (subscriptions s)" "snd (snd sub) = h"
    using lookupSub_SomeD[OF Some] by auto
  then show ?thesis
    using wellFormed_runHandler[OF wf, of i src h e] by (simp add: deliver_def Some)
qed

lemma wellFormed_fold_deliver: "wellFormed s \<Longrightarrow> wellFormed (fold (deliver e) js s)"
  by (induction js arbitrary: s) (simp_all add: wellFormed_deliver)

lemma wellFormed_dispatch: "wellFormed s \<Longrightarrow> wellFormed (dispatch src e s)"
  by (simp add: dispatch_def wellFormed_fold_deliver)


lemma wellFormed_dialogClosed:
  assumes wf: "wellFormed s"
  shows "wellFormed (dialogClosed d result s)"
proof (cases "lookupSub d s")
  case None
  then show ?thesis using wf by (simp add: dialogClosed_def)
next
  case (Some sub)
  obtain j src h where sub: "sub = (j, src, h)" by (cases sub)
  then have mem: "(d, src, h) \<in> set (subscriptions s)"
    using lookupSub_SomeD[OF Some] by auto
  show ?thesis
  proof (cases "src = AfterClosed")
    case False
    then show ?thesis using wf by (simp add: dialogClosed_def Some sub)
  next
    case True
    let ?t = "runHandler h d (DialogClosed d result) s"
    have wft: "wellFormed ?t"
      by (rule wellFormed_runHandler[OF wf mem])
    have h: "h = HelpDialogClosedHandler \<or> h = CreatorDialogClosedHandler"
      using wellFormed_sub[OF wf mem] True by (cases h) auto
    have old: "src' = AfterClosed" if "(d, src', h') \<in> set (subscriptions s)" for src' h'
      using wellFormed_same_id[OF wf mem that] True by simp
    have lt: "d < nextId s"
      using wellFormed_sub[OF wf mem] by simp
    have "src' = AfterClosed" if "(d, src', h') \<in> set (subscriptions ?t)" for src' h'
      using h that old lt
      by (auto simp: runHandler_def onCreatorDialogClosed_def displayMessage_def Let_def
          newRecognitionSubs_def split: if_splits)
    then have "h' \<noteq> VoiceListUpdatedHandler \<and> h' \<noteq> PathwayEventDeletedHandler"
      if "(d, src', h') \<in> set (subscriptions ?t)" for src' h'
      using wellFormed_sub[OF wft that] that by fastforce
    then have "wellFormed (unsubscribe d ?t)"
      by (rule wellFormed_unsubscribe[OF wft])
    then show ?thesis
      by (simp add: dialogClosed_def Some sub True)
  qed
qed

lemma wellFormed_step: "wellFormed s \<Longrightarrow> wellFormed (step e s)"
  by (cases e)
    (simp_all add: wellFormed_dispatch wellFormed_dialogClosed wellFormed_restartSpeechRecognition
      wellFormed_onVoiceChanged)

lemma ngOnInit_available:
  "ngOnInit True constructed =
     \<lparr> availableVoices = [], speechRecognitionAvailable = True, pathIsListening = False,
       currentSpeechRecognitionServiceSubscriptions = map fst (newRecognitionSubs 0),
       subscriptions = newRecognitionSubs 0 @
         [(4, OnPathwayEventDeleted, PathwayEventDeletedHandler),
          (5, OnVoiceListUpdated, VoiceListUpdatedHandler)],
       nextId = 6,
       trace = [(InitRecognition, False), (StartRecognition, False)] \<rparr>"
  by (simp add: ngOnInit_def constructed_def setupSpeechRecognitionBehaviour_eq
      displayMessage_def Let_def subscribe_def doCall_def newRecognitionSubs_def)

lemma ngOnInit_unavailable:
  "ngOnInit False constructed =
     \<lparr> availableVoices = [], speechRecognitionAvailable = False, pathIsListening = False,
       currentSpeechRecognitionServiceSubscriptions = [],
       subscriptions =
         [(0, OnPathwayEventDeleted, PathwayEventDeletedHandler),
          (1, OnVoiceListUpdated, VoiceListUpdatedHandler)],
       nextId = 2,
       trace = [(InitRecognition, False), (DisplayMessage (JStr msgUnavailable), False)] \<rparr>"
  by (simp add: ngOnInit_def constructed_def displayMessage_def Let_def subscribe_def doCall_def)

lemma wellFormed_ngOnInit_available: "wellFormed (ngOnInit True constructed)"
  unfolding ngOnInit_available
  by (rule wellFormedI) (auto simp: newRecognitionSubs_def subscribers_def)

lemma wellFormed_ngOnInit_unavailable: "wellFormed (ngOnInit False constructed)"
  unfolding ngOnInit_unavailable
  by (rule wellFormedI) (auto simp: subscribers_def)

lemma wellFormed_ngOnInit: "wellFormed (ngOnInit available constructed)"
  by (cases available)
    (simp_all add: wellFormed_ngOnInit_available wellFormed_ngOnInit_unavailable)

lemma run_snoc: "run available (es @ [e]) = step e (run available es)"
  by (simp add: run_def)

lemma wellFormed_run: "wellFormed (run available es)"
proof (induction es rule: rev_induct)
  case Nil
  show ?case by (simp add: run_def wellFormed_ngOnInit)
next
  case (snoc e es)
  then show ?case by (simp add: run_snoc wellFormed_step)
qed

section \<open>Delivery of events in well-formed states\<close>

lemma subscribers_member:
  "subscribers src s = sub # rest \<Longrightarrow> sub \<in> set (subscriptions s)"
  using set_subscribers[of src s] by auto

lemma deliver_open:
  "wellFormed s \<Longrightarrow> (i, src, h) \<in> set (subscriptions s) \<Longrightarrow> deliver e i s = runHandler h i e s"
  by (simp add: deliver_def lookupSub_wellFormed)

lemma deliver_closed: "\<not> isOpen i s \<Longrightarrow> deliver e i s = s"
  by (cases "lookupSub i s") (simp_all add: deliver_def isOpen_def)


lemma dispatch_single:
  "wellFormed s \<Longrightarrow> subscribers src s = [(i, src', h)] \<Longrightarrow> dispatch src e s = runHandler h i e s"
  using subscribers_member[of src s "(i, src', h)" "[]"]
  by (simp add: dispatch_def deliver_open)

lemma dialogClosed_creator:
  assumes "wellFormed s" "(d, AfterClosed, CreatorDialogClosedHandler) \<in> set (subscriptions s)"
  shows "dialogClosed d result s = unsubscribe d (onCreatorDialogClosed result s)"
  by (simp add: dialogClosed_def lookupSub_wellFormed[OF assms] runHandler_def)

lemma dialogClosed_help:
  assumes "wellFormed s" "(d, AfterClosed, HelpDialogClosedHandler) \<in> set (subscriptions s)"
  shows "dialogClosed d result s = unsubscribe d (restartSpeechRecognition s)"
  by (simp add: dialogClosed_def lookupSub_wellFormed[OF assms] runHandler_def)

lemma calls_simps [simp]:
  "calls (doCall c s) = calls s @ [c]"
  "calls (subscribe src h s) = calls s"
  "calls (unsubscribe i s) = calls s"
  "calls (restartSpeechRecognition s) = calls s @ restartCalls"
  "calls (unsubscribeFromAllSubscriptions s) = calls s"
  "calls (s\<lparr>pathIsListening := b\<rparr>) = calls s"
  "calls (s\<lparr>availableVoices := vs\<rparr>) = calls s"
  by (simp_all add: calls_def comp_def)

lemma subscribers_memberD:
  "sub \<in> set (subscribers src s) \<Longrightarrow> sub \<in> set (subscriptions s) \<and> fst (snd sub) = src"
  by (simp add: subscribers_def)

lemma result_dispatch:
  assumes wf: "wellFormed s" and "subscribers OnSpeechRecognitionResultAvailable s \<noteq> []"
  shows "step (RecognitionResult transcript) s = onResultAvailable transcript s"
proof -
  obtain sub where sub: "subscribers OnSpeechRecognitionResultAvailable s = [sub]"
    using assms(2) wellFormed_result[OF wf]
    by (cases "subscribers OnSpeechRecognitionResultAvailable s") auto
  obtain i src h where "sub = (i, src, h)" by (cases sub)
  moreover from this have "(i, src, h) \<in> set (subscriptions s)" "src = OnSpeechRecognitionResultAvailable"
    using subscribers_memberD[of sub OnSpeechRecognitionResultAvailable s] sub by auto
  moreover from this have "h = ResultAvailableHandler"
    using wellFormed_sub[OF wf, of i src h] by (cases h) auto
  ultimately show ?thesis
    using dispatch_single[OF wf, of OnSpeechRecognitionResultAvailable i src h] sub
    by (simp add: runHandler_def)
qed

lemma recognition_subs_after_restart:
  assumes wf: "wellFormed s"
  shows "filter (\<lambda>sub. isRecognitionHandler (snd (snd sub))) (subscriptions (restartSpeechRecognition s))
           = newRecognitionSubs (nextId s)"
proof -
  have "filter (\<lambda>sub. isRecognitionHandler (snd (snd sub)))
          (filter (\<lambda>sub. fst sub \<notin> set (currentSpeechRecognitionServiceSubscriptions s))
             (subscriptions s)) = []"
    using wellFormed_sub[OF wf] by (auto simp: filter_empty_conv)
  then show ?thesis
    by (simp add: newRecognitionSubs_def)
qed

lemma result_subscribers_after_restart:
  assumes wf: "wellFormed s"
  shows "subscribers OnSpeechRecognitionResultAvailable (restartSpeechRecognition s)
           = [(nextId s, OnSpeechRecognitionResultAvailable, ResultAvailableHandler)]"
proof -
  have "h = ResultAvailableHandler"
    if "(i, OnSpeechRecognitionResultAvailable, h) \<in> set (subscriptions s)" for i h
    using wellFormed_sub[OF wf that] by (cases h) auto
  then have "filter (\<lambda>sub. fst (snd sub) = OnSpeechRecognitionResultAvailable)
          (filter (\<lambda>sub. fst sub \<notin> set (currentSpeechRecognitionServiceSubscriptions s))
             (subscriptions s)) = []"
    using wellFormed_sub[OF wf] by (fastforce simp: filter_empty_conv)
  then show ?thesis
    by (simp add: subscribers_def newRecognitionSubs_def)
qed

section \<open>The idle component\<close>

lemma idle_doCall:
  "idle s \<Longrightarrow> c \<noteq> StartRecognition \<Longrightarrow> \<not> isNotice c \<Longrightarrow> idle (doCall c s)"
  by (simp add: idle_def)

lemma idle_subscribe: "idle s \<Longrightarrow> isIdleHandler h \<Longrightarrow> idle (subscribe src h s)"
  by (simp add: idle_def)

lemma idle_unsubscribe: "idle s \<Longrightarrow> idle (unsubscribe i s)"
  by (simp add: idle_def)

lemma idle_runHandler:
  assumes "idle s" "isIdleHandler h"
  shows "idle (runHandler h i e s)"
proof (cases h)
  case PathwayEventDeletedHandler
  then show ?thesis
    using assms(1)
    by (cases e)
      (simp_all add: runHandler_def onPathwayEventDeleted_def idle_doCall idle_subscribe Let_def)
next
  case VoiceListUpdatedHandler
  then show ?thesis
    using assms(1) by (cases e) (simp_all add: runHandler_def onVoiceListUpdated_def idle_def)
next
  case DeletedSpeechStartHandler
  then show ?thesis
    using assms(1) by (simp add: runHandler_def idle_doCall idle_unsubscribe)
qed (use assms(2) in simp_all)

lemma idle_deliver: "idle s \<Longrightarrow> idle (deliver e i s)"
proof (cases "lookupSub i s")
  case None
  assume "idle s"
  then show ?thesis by (simp add: deliver_def None)
next
  case (Some sub)
  assume idle: "idle s"
  then have "isIdleHandler (snd (snd sub))"
    using lookupSub_SomeD[OF Some] by (simp add: idle_def)
  then show ?thesis
    using idle by (simp add: deliver_def Some idle_runHandler)
qed

lemma idle_fold_deliver: "idle s \<Longrightarrow> idle (fold (deliver e) js s)"
  by (induction js arbitrary: s) (simp_all add: idle_deliver)

lemma idle_dialogClosed: "idle s \<Longrightarrow> idle (dialogClosed d result s)"
proof (cases "lookupSub d s")
  case None
  assume "idle s"
  then show ?thesis by (simp add: dialogClosed_def None)
next
  case (Some sub)
  assume idle: "idle s"
  then have "isIdleHandler (snd (snd sub))"
    using lookupSub_SomeD[OF Some] by (simp add: idle_def)
  then show ?thesis
    using idle by (simp add: dialogClosed_def Some idle_runHandler idle_unsubscribe)
qed

lemma idle_onVoiceChanged: "idle s \<Longrightarrow> idle (onVoiceChanged chosenVoiceURI s)"
  by (simp add: onVoiceChanged_def idle_doCall split: option.splits)

lemma idle_step: "idle s \<Longrightarrow> e \<noteq> ActivateVoiceControl \<Longrightarrow> idle (step e s)"
  by (cases e)
    (simp_all add: dispatch_def idle_fold_deliver idle_dialogClosed idle_onVoiceChanged idle_doCall)

lemma idle_ngOnInit: "idle (ngOnInit False constructed)"
  by (simp add: ngOnInit_unavailable idle_def calls_def)

lemma idle_run: "ActivateVoiceControl \<notin> set es \<Longrightarrow> idle (run False es)"
proof (induction es rule: rev_induct)
  case Nil
  show ?case by (simp add: run_def idle_ngOnInit)
next
  case (snoc e es)
  then show ?case by (auto simp: run_snoc intro: idle_step)
qed

lemma idle_handler_not_recognition: "isIdleHandler h \<Longrightarrow> \<not> isRecognitionHandler h"
  by (cases h) simp_all

section \<open>The branches of the command switch\<close>

lemma onResultAvailable_neuerTermin:
  assumes "matches (toLowerCase transcript) reNeuerTermin"
  shows "onResultAvailable transcript s =
    openAndHandlePathwayAppointmentCreatorDialog (doCall StopRecognition s)"
  using assms by (simp add: onResultAvailable_def)

lemma onResultAvailable_wiederhoeren:
  assumes "\<not> matches (toLowerCase transcript) reNeuerTermin"
    "matches (toLowerCase transcript) reAufEinWiederhoeren"
  shows "onResultAvailable transcript s =
    doCall StopRecognition (displayMessage (JStr msgGoodbye) (doCall StopRecognition s))"
  using assms by (simp add: onResultAvailable_def)

lemma onResultAvailable_hilfe:
  assumes "\<not> matches (toLowerCase transcript) reNeuerTermin"
    "\<not> matches (toLowerCase transcript) reAufEinWiederhoeren"
    "matches (toLowerCase transcript) reHilfe"
  shows "onResultAvailable transcript s = openHelpDialog (doCall StopRecognition s)"
  using assms by (simp add: onResultAvailable_def)

lemma onResultAvailable_loesche:
  assumes "\<not> matches (toLowerCase transcript) reNeuerTermin"
    "\<not> matches (toLowerCase transcript) reAufEinWiederhoeren"
    "\<not> matches (toLowerCase transcript) reHilfe"
    "matches (toLowerCase transcript) reLoesche"
  shows "onResultAvailable transcript s =
    subscribe OnSpeechEnd DeleteSpeechEndHandler
      (restartSpeechRecognition
        (if eventNameOf (toLowerCase transcript) \<noteq> []
         then doCall (UserWantsDoDeleteEvent (eventNameOf (toLowerCase transcript))) (doCall StopRecognition s)
         else doCall StopRecognition s))"
  using assms by (simp add: onResultAvailable_def Let_def)

lemma onResultAvailable_zeige:
  assumes "\<not> matches (toLowerCase transcript) reNeuerTermin"
    "\<not> matches (toLowerCase transcript) reAufEinWiederhoeren"
    "\<not> matches (toLowerCase transcript) reHilfe"
    "\<not> matches (toLowerCase transcript) reLoesche"
    "matches (toLowerCase transcript) reZeige"
  shows "onResultAvailable transcript s =
    restartSpeechRecognition
      (if eventNameOf (toLowerCase transcript) \<noteq> []
       then doCall (UserWantsToOpenEvent (eventNameOf (toLowerCase transcript))) (doCall StopRecognition s)
       else doCall StopRecognition s)"
  using assms by (simp add: onResultAvailable_def Let_def)

lemma onResultAvailable_default:
  assumes "\<not> matches (toLowerCase transcript) reNeuerTermin"
    "\<not> matches (toLowerCase transcript) reAufEinWiederhoeren"
    "\<not> matches (toLowerCase transcript) reHilfe"
    "\<not> matches (toLowerCase transcript) reLoesche"
    "\<not> matches (toLowerCase transcript) reZeige"
  shows "onResultAvailable transcript s =
    restartSpeechRecognition (displayMessage (JStr msgUnsupported) (doCall StopRecognition s))"
  using assms by (simp add: onResultAvailable_def)

section \<open>Concrete transcripts\<close>


section \<open>What the matcher decides\<close>

lemma nullable_words: "nullable r \<longleftrightarrow> [] \<in> words r"
  by (induction r) (auto intro: star_empty)

lemma star_Cons_split:
  assumes "x \<in> star A" "x = c # w"
  shows "\<exists>u v. w = u @ v \<and> c # u \<in> A \<and> v \<in> star A"
  using assms
proof (induction arbitrary: w rule: star.induct)
  case star_empty
  then show ?case by simp
next
  case (star_step u v)
  show ?case
  proof (cases u)
    case Nil
    then show ?thesis using star_step by simp
  next
    case (Cons d u')
    then have "d = c" "w = u' @ v" using star_step.prems by simp_all
    then show ?thesis using star_step.hyps(1,2) Cons by blast
  qed
qed

lemma star_Cons_iff:
  "c # w \<in> star A \<longleftrightarrow> (\<exists>u v. w = u @ v \<and> c # u \<in> A \<and> v \<in> star A)"
proof
  assume "c # w \<in> star A"
  then show "\<exists>u v. w = u @ v \<and> c # u \<in> A \<and> v \<in> star A"
    by (rule star_Cons_split) simp
next
  assume "\<exists>u v. w = u @ v \<and> c # u \<in> A \<and> v \<in> star A"
  then obtain u v where "w = u @ v" "c # u \<in> A" "v \<in> star A" by blast
  then show "c # w \<in> star A"
    using star_step[of "c # u" A v] by simp
qed

lemma deriv_words: "w \<in> words (deriv c r) \<longleftrightarrow> c # w \<in> words r"
proof (induction r arbitrary: w)
  case (Seq r s)
  show ?case
    by (auto simp: Seq nullable_words Cons_eq_append_conv)
next
  case (Star r)
  show ?case
    by (simp add: Star star_Cons_iff)
qed auto

lemma matchesPrefix_words: "matchesPrefix r s \<longleftrightarrow> (\<exists>u v. s = u @ v \<and> u \<in> words r)"
proof (induction s arbitrary: r)
  case Nil
  show ?case by (simp add: nullable_words)
next
  case (Cons c cs)
  show ?case
    by (auto simp: Cons nullable_words deriv_words Cons_eq_append_conv)
qed

lemma matches_words: "matches s r \<longleftrightarrow> (\<exists>a u b. s = a @ u @ b \<and> u \<in> words r)"
proof (induction s)
  case Nil
  show ?case by (simp add: nullable_words)
next
  case (Cons c cs)
  show ?case
  proof
    assume "matches (c # cs) r"
    then consider "matchesPrefix r (c # cs)" | "matches cs r" by auto
    then show "\<exists>a u b. c # cs = a @ u @ b \<and> u \<in> words r"
    proof cases
      case 1
      then obtain u v where "c # cs = u @ v" "u \<in> words r"
        unfolding matchesPrefix_words by blast
      then have "c # cs = [] @ u @ v \<and> u \<in> words r" by simp
      then show ?thesis by blast
    next
      case 2
      then obtain a u b where "cs = a @ u @ b" "u \<in> words r"
        unfolding Cons by blast
      then have "c # cs = (c # a) @ u @ b \<and> u \<in> words r" by simp
      then show ?thesis by blast
    qed
  next
    assume "\<exists>a u b. c # cs = a @ u @ b \<and> u \<in> words r"
    then obtain a u b where eq: "c # cs = a @ u @ b" and u: "u \<in> words r" by blast
    show "matches (c # cs) r"
    proof (cases a)
      case Nil
      then have "matchesPrefix r (c # cs)"
        unfolding matchesPrefix_words using eq u by auto
      then show ?thesis by simp
    next
      case (Cons d a')
      then have "cs = a' @ u @ b" using eq by simp
      then have "matches cs r" unfolding Cons.IH using u by blast
      then show ?thesis by simp
    qed
  qed
qed

lemma words_lit [simp]: "words (lit s) = {s}"
  by (induction s) auto

lemma toLowerCase_append: "toLowerCase (a @ b) = toLowerCase a @ toLowerCase b"
  by (simp add: toLowerCase_def)

lemma contains_neuer_termin:
  "matches (a @ ''neuer termin'' @ b) reNeuerTermin"
proof -
  have "''neuer termin'' \<in> words reNeuerTermin"
  proof -
    have "isWhiteSpace CHR '' ''" by (simp add: isWhiteSpace_def)
    then have "'' '' \<in> words WhiteSpace" by simp
    moreover have "[] \<in> words (Star WordChar)" by (simp add: star_empty)
    moreover have "''neuer termin'' = [] @ ''neuer'' @ '' '' @ ''termin'' @ []" by simp
    ultimately show ?thesis
      unfolding reNeuerTermin_def words.simps(7) words_lit by blast
  qed
  then show ?thesis unfolding matches_words by blast
qed


lemma toLowerCase_neuer_termin: "toLowerCase ''neuer termin'' = ''neuer termin''"
  by code_simp

lemma calls_displayMessage [simp]: "calls (displayMessage m s) = calls s @ [DisplayMessage m]"
  by (simp add: displayMessage_def)

lemma calls_openHelpDialog [simp]: "calls (openHelpDialog s) = calls s @ [OpenHelpDialog]"
  by (simp add: openHelpDialog_def)

lemma calls_openAndHandlePathwayAppointmentCreatorDialog [simp]:
  "calls (openAndHandlePathwayAppointmentCreatorDialog s) =
     calls s @ [StopRecognition, OpenCreatorDialog]"
  by (simp add: openAndHandlePathwayAppointmentCreatorDialog_def)

section \<open>The one-shot callbacks of the synthesis service\<close>

lemma restart_keeps_other_subscriptions:
  assumes wf: "wellFormed s" and sub: "(i, src, h) \<in> set (subscriptions s)"
    and h: "\<not> isRecognitionHandler h"
  shows "(i, src, h) \<in> set (subscriptions (restartSpeechRecognition s))"
  using wellFormed_sub[OF wf sub] sub h by simp









section \<open>The two paths that speak\<close>







section \<open>What a restart cancels\<close>

lemma registered_closed_after_restart:
  assumes wf: "wellFormed s" and i: "i \<in> set (currentSpeechRecognitionServiceSubscriptions s)"
  shows "\<not> isOpen i (restartSpeechRecognition s)"
proof -
  have "i < nextId s" by (rule wellFormed_current[OF wf i])
  then show ?thesis
    using i by (auto simp: isOpen_def lookupSub_None_iff newRecognitionSubs_def)
qed

lemma surviving_speechEnd_callback_restarts:
  assumes wf: "wellFormed s" and sub: "(i, OnSpeechEnd, h) \<in> set (subscriptions s)"
  shows "calls (deliver SpeechEnd i (restartSpeechRecognition s)) =
     calls (restartSpeechRecognition s) @ restartCalls"
proof -
  have h: "h = DeleteSpeechEndHandler \<or> h = CreatorSpeechEndHandler"
    using wellFormed_sub[OF wf sub] by (cases h) auto
  then have "\<not> isRecognitionHandler h" by auto
  then have "(i, OnSpeechEnd, h) \<in> set (subscriptions (restartSpeechRecognition s))"
    by (rule restart_keeps_other_subscriptions[OF wf sub])
  then have "deliver SpeechEnd i (restartSpeechRecognition s) =
      runHandler h i SpeechEnd (restartSpeechRecognition s)"
    by (rule deliver_open[OF wellFormed_restartSpeechRecognition[OF wf]])
  then show ?thesis
    using h by (auto simp: runHandler_def)
qed

lemma goodbye_keeps_subscriptions:
  assumes "\<not> matches (toLowerCase transcript) reNeuerTermin"
    "matches (toLowerCase transcript) reAufEinWiederhoeren"
  shows "subscriptions (onResultAvailable transcript s) = subscriptions s"
  by (simp add: onResultAvailable_wiederhoeren[OF assms] displayMessage_def)

section \<open>The extracted event name\<close>

lemma indexOf_first: "c \<notin> set a \<Longrightarrow> indexOf (a @ c # b) c = int (length a)"
  by (induction a) (auto simp: Let_def)

lemma indexOf_absent: "c \<notin> set t \<Longrightarrow> indexOf t c = -1"
  by (induction t) (auto simp: Let_def)

text \<open>With a space in the transcript, the name is what follows the first space, trimmed.\<close>

lemma eventNameOf_after_first_space:
  assumes "CHR '' '' \<notin> set a"
  shows "eventNameOf (a @ CHR '' '' # b) = trim b"
proof -
  have "substr (a @ CHR '' '' # b) (int (length a)) = CHR '' '' # b"
    by (simp add: substr_def)
  moreover have "trim (CHR '' '' # b) = trim b"
    by (simp add: trim_def isWhiteSpace_def)
  ultimately show ?thesis
    by (simp add: eventNameOf_def indexOf_first[OF assms])
qed

text \<open>Without a space, \<open>indexOf\<close> yields \<open>-1\<close> and the name is the last character of the
  transcript (trimmed).\<close>

lemma eventNameOf_without_space:
  assumes "CHR '' '' \<notin> set t" "t \<noteq> []"
  shows "eventNameOf t = trim [last t]"
proof -
  have "drop (length t - Suc 0) t = [last t]"
    using assms(2) by (induction t) (auto simp: drop_Cons')
  then have "substr t (-1) = [last t]"
    using assms(2) by (cases t) (auto simp: substr_def nat_diff_distrib')
  then show ?thesis
    by (simp add: eventNameOf_def indexOf_absent[OF assms(1)])
qed

section \<open>While no recognition callback is subscribed\<close>

lemma starts_simps [simp]:
  "starts (doCall c s) = (if c = StartRecognition then Suc (starts s) else starts s)"
  "starts (subscribe src h s) = starts s"
  "starts (unsubscribe i s) = starts s"
  "starts (restartSpeechRecognition s) = Suc (starts s)"
  "starts (s\<lparr>pathIsListening := b\<rparr>) = starts s"
  "starts (s\<lparr>availableVoices := vs\<rparr>) = starts s"
  by (simp_all add: starts_def restartCalls_def)


lemma recognitionCallbacks_simps [simp]:
  "recognitionCallbacks (doCall c s) = recognitionCallbacks s"
  "recognitionCallbacks (s\<lparr>pathIsListening := b\<rparr>) = recognitionCallbacks s"
  "recognitionCallbacks (s\<lparr>availableVoices := vs\<rparr>) = recognitionCallbacks s"
  "recognitionCallbacks (subscribe src h s) =
     recognitionCallbacks s @ (if isRecognitionHandler h then [(nextId s, src, h)] else [])"
  by (simp_all add: recognitionCallbacks_def)












lemma run_append: "fold step es' (run available es) = run available (es @ es')"
  by (simp add: run_def)






section \<open>The specified properties\<close>

text \<open>
  C9 (voice-list filtering). In every state the component reaches, a voice-list-updated
  event replaces \<open>availableVoices\<close> by exactly the entries of the event's list whose
  locale is \<open>de-DE\<close>, in their original order; whatever was stored before is gone and
  no entry with another locale is kept.
\<close>

theorem voice_list_filtered_to_german:
  "availableVoices (step (VoiceListUpdated allVoices) (run available es)) =
     filter (\<lambda>voice. lang voice = ''de-DE'') allVoices"
proof -
  let ?s = "run available es"
  have wf: "wellFormed ?s" by (rule wellFormed_run)
  obtain i where "subscribers OnVoiceListUpdated ?s = [(i, OnVoiceListUpdated, VoiceListUpdatedHandler)]"
    using wellFormed_voice[OF wf] by blast
  then have "step (VoiceListUpdated allVoices) ?s = onVoiceListUpdated allVoices ?s"
    using dispatch_single[OF wf] by (simp add: runHandler_def)
  then show ?thesis by (simp add: onVoiceListUpdated_def)
qed

text \<open>
  C10 (dialog-result discrimination by truthiness). In every state the component reaches
  with an appointment-creation dialog \<open>d\<close> open, a truthy result of that dialog is taken as
  a created appointment iff its \<open>date\<close>, \<open>header\<close> and \<open>content\<close> are all truthy: then
  it is emitted upward and the success utterance is spoken. Every other truthy result is
  taken as an error message: its \<open>data\<close> field is displayed as a notice and spoken.
\<close>

theorem dialog_result_discriminated_by_truthiness:
  assumes "(d, AfterClosed, CreatorDialogClosedHandler) \<in> set (subscriptions (run available es))"
    and "truthy result"
  shows "calls (step (DialogClosed d result) (run available es)) =
     calls (run available es) @
       (if truthy (getProp result ''date'') \<and> truthy (getProp result ''header'')
           \<and> truthy (getProp result ''content'')
        then [NewPathwayEventCreated result, SpeakUtterance (JStr msgCreated)]
        else [DisplayMessage (getProp result ''data''), SpeakUtterance (getProp result ''data'')])"
  using assms
  by (simp add: dialogClosed_creator[OF wellFormed_run] onCreatorDialogClosed_def
      isPathwayEvent_def displayMessage_def Let_def)

theorem dialog_result_discriminated_by_truthiness_witness:
  "(6, AfterClosed, CreatorDialogClosedHandler)
      \<in> set (subscriptions (run True [RecognitionResult ''Neuer Termin'']))
   \<and> truthy (JObj [(''date'', JStr ''2022-05-01''), (''header'', JStr ''''),
        (''content'', JStr ''Zahnarzt''), (''data'', JStr ''Fehler'')])
   \<and> calls (step (DialogClosed 6 (JObj [(''date'', JStr ''2022-05-01''), (''header'', JStr ''''),
        (''content'', JStr ''Zahnarzt''), (''data'', JStr ''Fehler'')]))
          (run True [RecognitionResult ''Neuer Termin''])) =
      calls (run True [RecognitionResult ''Neuer Termin'']) @
        [DisplayMessage (JStr ''Fehler''), SpeakUtterance (JStr ''Fehler'')]"
proof -
  let ?r = "JObj [(''date'', JStr ''2022-05-01''), (''header'', JStr ''''),
        (''content'', JStr ''Zahnarzt''), (''data'', JStr ''Fehler'')]"
  have h1: "(6, AfterClosed, CreatorDialogClosedHandler)
      \<in> set (subscriptions (run True [RecognitionResult ''Neuer Termin'']))"
    by code_simp
  have h2: "truthy ?r" by simp
  show ?thesis
    using h1 h2 dialog_result_discriminated_by_truthiness[OF h1 h2] by simp
qed

text \<open>
  C6 (idempotence of restart). From every state the component reaches, two calls of
  \<open>restartSpeechRecognition\<close> in succession leave exactly one set of recognition
  callbacks subscribed, the one installed by the second call; a recognition result that
  follows is handled by running the result callback once.
\<close>

theorem restart_twice_leaves_one_subscription_set:
  "filter (\<lambda>sub. isRecognitionHandler (snd (snd sub)))
      (subscriptions (restartSpeechRecognition (restartSpeechRecognition (run available es))))
     = newRecognitionSubs (nextId (run available es) + 4)
   \<and> subscribers OnSpeechRecognitionResultAvailable
        (restartSpeechRecognition (restartSpeechRecognition (run available es)))
     = [(nextId (run available es) + 4, OnSpeechRecognitionResultAvailable, ResultAvailableHandler)]
   \<and> step (RecognitionResult transcript)
        (restartSpeechRecognition (restartSpeechRecognition (run available es)))
     = onResultAvailable transcript
        (restartSpeechRecognition (restartSpeechRecognition (run available es)))"
proof -
  let ?s1 = "restartSpeechRecognition (run available es)"
  have wf1: "wellFormed ?s1"
    by (rule wellFormed_restartSpeechRecognition[OF wellFormed_run])
  have wf2: "wellFormed (restartSpeechRecognition ?s1)"
    by (rule wellFormed_restartSpeechRecognition[OF wf1])
  have a: "filter (\<lambda>sub. isRecognitionHandler (snd (snd sub)))
      (subscriptions (restartSpeechRecognition ?s1)) = newRecognitionSubs (nextId (run available es) + 4)"
    using recognition_subs_after_restart[OF wf1] by simp
  have b: "subscribers OnSpeechRecognitionResultAvailable (restartSpeechRecognition ?s1)
     = [(nextId (run available es) + 4, OnSpeechRecognitionResultAvailable, ResultAvailableHandler)]"
    using result_subscribers_after_restart[OF wf1] by simp
  have c: "step (RecognitionResult transcript) (restartSpeechRecognition ?s1)
     = onResultAvailable transcript (restartSpeechRecognition ?s1)"
    by (rule result_dispatch[OF wf2]) (simp add: b)
  show ?thesis using a b c by blast
qed

text \<open>
  C7 (recognition unavailable). When \<open>initRecognition\<close> reports that recognition is
  unavailable, \<open>ngOnInit\<close> makes exactly two calls, the availability check and one
  notice, and subscribes no recognition callback. As long as the user does not press the
  microphone button, whatever events arrive afterwards, \<open>startRecognition\<close> is never
  called, that notice stays the only one, no recognition callback is subscribed and the
  component is not listening.
\<close>

theorem unavailable_recognition_stays_idle:
  assumes "ActivateVoiceControl \<notin> set es"
  shows "calls (run False []) = [InitRecognition, DisplayMessage (JStr msgUnavailable)]
    \<and> StartRecognition \<notin> set (calls (run False es))
    \<and> filter isNotice (calls (run False es)) = [DisplayMessage (JStr msgUnavailable)]
    \<and> filter (\<lambda>sub. isRecognitionHandler (snd (snd sub))) (subscriptions (run False es)) = []
    \<and> currentSpeechRecognitionServiceSubscriptions (run False es) = []
    \<and> \<not> pathIsListening (run False es)"
proof -
  have "idle (run False es)"
    by (rule idle_run[OF assms])
  moreover have "calls (run False []) = [InitRecognition, DisplayMessage (JStr msgUnavailable)]"
    by (simp add: run_def ngOnInit_unavailable calls_def)
  ultimately show ?thesis
    by (auto simp: idle_def filter_empty_conv dest: idle_handler_not_recognition)
qed

theorem unavailable_recognition_stays_idle_witness:
  "ActivateVoiceControl \<notin> set [RecognitionResult ''hilfe'', PathwayEventDeleted False, SpeechStart, SpeechEnd]
   \<and> StartRecognition \<notin> set (calls (run False
        [RecognitionResult ''hilfe'', PathwayEventDeleted False, SpeechStart, SpeechEnd]))
   \<and> filter isNotice (calls (run False
        [RecognitionResult ''hilfe'', PathwayEventDeleted False, SpeechStart, SpeechEnd]))
      = [DisplayMessage (JStr msgUnavailable)]"
proof -
  have h: "ActivateVoiceControl \<notin> set [RecognitionResult ''hilfe'', PathwayEventDeleted False, SpeechStart, SpeechEnd]"
    by simp
  show ?thesis
    using h unavailable_recognition_stays_idle[OF h] by blast
qed



text \<open>
  C4 (target extraction), evaluated where the code departs from it. The transcript
  \<open>l\<ouml>sche\<close> has no space, so \<open>indexOf\<close> yields \<open>-1\<close> and \<open>substr(-1)\<close> the last
  character: the component asks for the deletion of an event named \<open>e\<close>.
\<close>

theorem delete_without_target_emits_last_character:
  "calls (run True [RecognitionResult (''l'' @ [oUml] @ ''sche'')]) =
     [InitRecognition, StartRecognition, StopRecognition, UserWantsDoDeleteEvent ''e'',
      StopRecognition, InitRecognition, StartRecognition]"
  by code_simp

text \<open>
  C3 (rule order of the classifier). The result callback tries the five patterns on the
  lower-cased transcript in the order new appointment, goodbye, help, delete, show, and
  the first one that matches somewhere in it decides what is done: the creation dialog is
  opened; or the farewell notice is displayed and recognition stopped; or the help dialog
  is opened; or the delete request is emitted (when the extracted name is not empty) and
  recognition restarted; or the same with the open request; and with no match the
  "not supported" notice is displayed and recognition restarted. In particular a
  transcript that contains both \<open>hilfe\<close> and \<open>neuer termin\<close>, before or after
  lower-casing, opens the creation dialog.
\<close>

theorem first_matching_rule_decides:
  "(matches (toLowerCase transcript) reNeuerTermin \<longrightarrow>
      calls (onResultAvailable transcript s) = calls s @ [StopRecognition, StopRecognition, OpenCreatorDialog])
   \<and> (\<not> matches (toLowerCase transcript) reNeuerTermin \<and> matches (toLowerCase transcript) reAufEinWiederhoeren \<longrightarrow>
      calls (onResultAvailable transcript s) =
        calls s @ [StopRecognition, DisplayMessage (JStr msgGoodbye), StopRecognition])
   \<and> (\<not> matches (toLowerCase transcript) reNeuerTermin \<and> \<not> matches (toLowerCase transcript) reAufEinWiederhoeren
        \<and> matches (toLowerCase transcript) reHilfe \<longrightarrow>
      calls (onResultAvailable transcript s) = calls s @ [StopRecognition, OpenHelpDialog])
   \<and> (\<not> matches (toLowerCase transcript) reNeuerTermin \<and> \<not> matches (toLowerCase transcript) reAufEinWiederhoeren
        \<and> \<not> matches (toLowerCase transcript) reHilfe \<and> matches (toLowerCase transcript) reLoesche \<longrightarrow>
      calls (onResultAvailable transcript s) =
        calls s @ [StopRecognition]
          @ (if eventNameOf (toLowerCase transcript) \<noteq> []
             then [UserWantsDoDeleteEvent (eventNameOf (toLowerCase transcript))] else [])
          @ restartCalls)
   \<and> (\<not> matches (toLowerCase transcript) reNeuerTermin \<and> \<not> matches (toLowerCase transcript) reAufEinWiederhoeren
        \<and> \<not> matches (toLowerCase transcript) reHilfe \<and> \<not> matches (toLowerCase transcript) reLoesche
        \<and> matches (toLowerCase transcript) reZeige \<longrightarrow>
      calls (onResultAvailable transcript s) =
        calls s @ [StopRecognition]
          @ (if eventNameOf (toLowerCase transcript) \<noteq> []
             then [UserWantsToOpenEvent (eventNameOf (toLowerCase transcript))] else [])
          @ restartCalls)
   \<and> (\<not> matches (toLowerCase transcript) reNeuerTermin \<and> \<not> matches (toLowerCase transcript) reAufEinWiederhoeren
        \<and> \<not> matches (toLowerCase transcript) reHilfe \<and> \<not> matches (toLowerCase transcript) reLoesche
        \<and> \<not> matches (toLowerCase transcript) reZeige \<longrightarrow>
      calls (onResultAvailable transcript s) =
        calls s @ [StopRecognition, DisplayMessage (JStr msgUnsupported)] @ restartCalls)
   \<and> ((\<exists>a b. toLowerCase transcript = a @ ''neuer termin'' @ b) \<and> (\<exists>c d. toLowerCase transcript = c @ ''hilfe'' @ d) \<longrightarrow>
      calls (onResultAvailable transcript s) = calls s @ [StopRecognition, StopRecognition, OpenCreatorDialog])
   \<and> ((\<exists>a b. transcript = a @ ''neuer termin'' @ b) \<and> (\<exists>c d. transcript = c @ ''hilfe'' @ d) \<longrightarrow>
      calls (onResultAvailable transcript s) = calls s @ [StopRecognition, StopRecognition, OpenCreatorDialog])"
proof -
  have lower: "matches (toLowerCase transcript) reNeuerTermin" if "toLowerCase transcript = a @ ''neuer termin'' @ b" for a b
    unfolding that by (rule contains_neuer_termin)
  have raw: "matches (toLowerCase transcript) reNeuerTermin" if "transcript = a @ ''neuer termin'' @ b" for a b
    unfolding that toLowerCase_append toLowerCase_neuer_termin by (rule contains_neuer_termin)
  have both_lower: "calls (onResultAvailable transcript s) =
      calls s @ [StopRecognition, StopRecognition, OpenCreatorDialog]"
    if "\<exists>a b. toLowerCase transcript = a @ ''neuer termin'' @ b"
    using that lower by (auto simp: onResultAvailable_neuerTermin)
  have both_raw: "calls (onResultAvailable transcript s) =
      calls s @ [StopRecognition, StopRecognition, OpenCreatorDialog]"
    if "\<exists>a b. transcript = a @ ''neuer termin'' @ b"
    using that raw onResultAvailable_neuerTermin[of transcript s] by fastforce
  show ?thesis
    by (intro conjI impI; (elim conjE)?)
      (simp_all add: onResultAvailable_neuerTermin onResultAvailable_wiederhoeren
        onResultAvailable_hilfe onResultAvailable_loesche onResultAvailable_zeige
        onResultAvailable_default both_lower both_raw)
qed

theorem first_matching_rule_decides_witness:
  "(\<exists>a b. ''hilfe, neuer termin'' = a @ ''neuer termin'' @ b)
   \<and> (\<exists>c d. ''hilfe, neuer termin'' = c @ ''hilfe'' @ d)
   \<and> matches (toLowerCase ''hilfe, neuer termin'') reNeuerTermin
   \<and> matches (toLowerCase ''hilfe, neuer termin'') reHilfe
   \<and> calls (onResultAvailable ''hilfe, neuer termin'' constructed) =
       [StopRecognition, StopRecognition, OpenCreatorDialog]
   \<and> \<not> matches (toLowerCase ''Ich brauche Hilfe'') reNeuerTermin
   \<and> \<not> matches (toLowerCase ''Ich brauche Hilfe'') reAufEinWiederhoeren
   \<and> matches (toLowerCase ''Ich brauche Hilfe'') reHilfe
   \<and> calls (onResultAvailable ''Ich brauche Hilfe'' constructed) = [StopRecognition, OpenHelpDialog]"
proof -
  have h1: "''hilfe, neuer termin'' = ''hilfe, '' @ ''neuer termin'' @ []"
    and h2: "''hilfe, neuer termin'' = [] @ ''hilfe'' @ '', neuer termin''"
    by simp_all
  have h3: "matches (toLowerCase ''hilfe, neuer termin'') reNeuerTermin"
    and h4: "matches (toLowerCase ''hilfe, neuer termin'') reHilfe"
    and h5: "\<not> matches (toLowerCase ''Ich brauche Hilfe'') reNeuerTermin"
    and h6: "\<not> matches (toLowerCase ''Ich brauche Hilfe'') reAufEinWiederhoeren"
    and h7: "matches (toLowerCase ''Ich brauche Hilfe'') reHilfe"
    by code_simp+
  have c0: "calls constructed = []"
    by (simp add: calls_def constructed_def)
  have "calls (onResultAvailable ''hilfe, neuer termin'' constructed) =
       calls constructed @ [StopRecognition, StopRecognition, OpenCreatorDialog]"
    using first_matching_rule_decides[of "''hilfe, neuer termin''" constructed] h3 by blast
  then have r1: "calls (onResultAvailable ''hilfe, neuer termin'' constructed) =
       [StopRecognition, StopRecognition, OpenCreatorDialog]"
    by (simp only: c0 append_Nil)
  have "calls (onResultAvailable ''Ich brauche Hilfe'' constructed) =
       calls constructed @ [StopRecognition, OpenHelpDialog]"
    using first_matching_rule_decides[of "''Ich brauche Hilfe''" constructed] h5 h6 h7 by blast
  then have r2: "calls (onResultAvailable ''Ich brauche Hilfe'' constructed) =
       [StopRecognition, OpenHelpDialog]"
    by (simp only: c0 append_Nil)
  have e1: "\<exists>a b. ''hilfe, neuer termin'' = a @ ''neuer termin'' @ b"
    using h1 by blast
  have e2: "\<exists>c d. ''hilfe, neuer termin'' = c @ ''hilfe'' @ d"
    using h2 by blast
  show ?thesis
    using e1 e2 h3 h4 h5 h6 h7 r1 r2 by (intro conjI)
qed


text \<open>
  C2 (cancelled handlers), counterexample. The delete command registers a one-shot
  speech-end callback (subscription 10) after its own restart. A later restart, here by
  the microphone button, does not cancel it: it is still open, and the speech-end event
  that follows makes it restart the session once more.
\<close>

theorem one_shot_survives_restart_and_acts:
  "(10, OnSpeechEnd, DeleteSpeechEndHandler)
     \<in> set (subscriptions (run True [RecognitionResult (''l'' @ [oUml] @ ''sche x'')]))
   \<and> isOpen 10 (run True [RecognitionResult (''l'' @ [oUml] @ ''sche x''), ActivateVoiceControl])
   \<and> calls (run True [RecognitionResult (''l'' @ [oUml] @ ''sche x''), ActivateVoiceControl, SpeechEnd]) =
     calls (run True [RecognitionResult (''l'' @ [oUml] @ ''sche x''), ActivateVoiceControl])
       @ [StopRecognition, InitRecognition, StartRecognition]"
  by code_simp

text \<open>
  C2 as amended. In every state the component reaches, \<open>restartSpeechRecognition\<close>
  cancels the subscriptions held in \<open>currentSpeechRecognitionServiceSubscriptions\<close> (the
  recognition callbacks), and an event delivered to a subscription that is no longer open
  changes nothing. Every other subscription, the one-shot callbacks of the synthesis
  service among them, stays open across a restart, and a one-shot speech-end callback
  that fires after the restart still restarts the session. The goodbye command cancels no
  subscription at all.
\<close>

theorem restart_cancels_registered_subscriptions_only:
  "(\<forall>i \<in> set (currentSpeechRecognitionServiceSubscriptions (run available es)).
       \<not> isOpen i (restartSpeechRecognition (run available es)))
   \<and> (\<forall>i e t. \<not> isOpen i t \<longrightarrow> deliver e i t = t)
   \<and> (\<forall>sub \<in> set (subscriptions (run available es)).
        \<not> isRecognitionHandler (snd (snd sub)) \<longrightarrow>
          sub \<in> set (subscriptions (restartSpeechRecognition (run available es))))
   \<and> (\<forall>i h. (i, OnSpeechEnd, h) \<in> set (subscriptions (run available es)) \<longrightarrow>
        calls (deliver SpeechEnd i (restartSpeechRecognition (run available es))) =
          calls (restartSpeechRecognition (run available es)) @ restartCalls)
   \<and> (\<not> matches (toLowerCase transcript) reNeuerTermin \<and> matches (toLowerCase transcript) reAufEinWiederhoeren \<longrightarrow>
        subscriptions (onResultAvailable transcript (run available es)) = subscriptions (run available es))"
proof -
  let ?s = "run available es"
  have wf: "wellFormed ?s" by (rule wellFormed_run)
  have a: "\<forall>i \<in> set (currentSpeechRecognitionServiceSubscriptions ?s).
       \<not> isOpen i (restartSpeechRecognition ?s)"
    using registered_closed_after_restart[OF wf] by blast
  have b: "\<forall>i e t. \<not> isOpen i t \<longrightarrow> deliver e i t = t"
    using deliver_closed by blast
  have c: "\<forall>sub \<in> set (subscriptions ?s).
        \<not> isRecognitionHandler (snd (snd sub)) \<longrightarrow>
          sub \<in> set (subscriptions (restartSpeechRecognition ?s))"
  proof (intro ballI impI)
    fix sub
    assume mem: "sub \<in> set (subscriptions ?s)" and h: "\<not> isRecognitionHandler (snd (snd sub))"
    obtain i src h' where sub: "sub = (i, src, h')" by (cases sub)
    show "sub \<in> set (subscriptions (restartSpeechRecognition ?s))"
      using restart_keeps_other_subscriptions[OF wf, of i src h'] mem h sub by simp
  qed
  have d: "\<forall>i h. (i, OnSpeechEnd, h) \<in> set (subscriptions ?s) \<longrightarrow>
        calls (deliver SpeechEnd i (restartSpeechRecognition ?s)) =
          calls (restartSpeechRecognition ?s) @ restartCalls"
    using surviving_speechEnd_callback_restarts[OF wf] by blast
  have e: "\<not> matches (toLowerCase transcript) reNeuerTermin \<and> matches (toLowerCase transcript) reAufEinWiederhoeren \<longrightarrow>
        subscriptions (onResultAvailable transcript ?s) = subscriptions ?s"
    using goodbye_keeps_subscriptions by blast
  show ?thesis
    using a b c d e by (intro conjI)
qed

theorem restart_cancels_registered_subscriptions_only_witness:
  "6 \<in> set (currentSpeechRecognitionServiceSubscriptions
        (run True [RecognitionResult (''l'' @ [oUml] @ ''sche x'')]))
   \<and> \<not> isOpen 6 (restartSpeechRecognition (run True [RecognitionResult (''l'' @ [oUml] @ ''sche x'')]))
   \<and> (10, OnSpeechEnd, DeleteSpeechEndHandler)
        \<in> set (subscriptions (run True [RecognitionResult (''l'' @ [oUml] @ ''sche x'')]))
   \<and> \<not> isRecognitionHandler DeleteSpeechEndHandler
   \<and> (10, OnSpeechEnd, DeleteSpeechEndHandler)
        \<in> set (subscriptions (restartSpeechRecognition
              (run True [RecognitionResult (''l'' @ [oUml] @ ''sche x'')])))
   \<and> calls (deliver SpeechEnd 10 (restartSpeechRecognition
              (run True [RecognitionResult (''l'' @ [oUml] @ ''sche x'')]))) =
       calls (restartSpeechRecognition (run True [RecognitionResult (''l'' @ [oUml] @ ''sche x'')]))
         @ restartCalls
   \<and> \<not> matches (toLowerCase (''Auf ein Wiederh'' @ [oUml] @ ''ren'')) reNeuerTermin
   \<and> matches (toLowerCase (''Auf ein Wiederh'' @ [oUml] @ ''ren'')) reAufEinWiederhoeren
   \<and> subscriptions (onResultAvailable (''Auf ein Wiederh'' @ [oUml] @ ''ren'')
         (run True [RecognitionResult (''l'' @ [oUml] @ ''sche x'')])) =
       subscriptions (run True [RecognitionResult (''l'' @ [oUml] @ ''sche x'')])"
proof -
  let ?s = "run True [RecognitionResult (''l'' @ [oUml] @ ''sche x'')]"
  have h1: "6 \<in> set (currentSpeechRecognitionServiceSubscriptions ?s)"
    by code_simp
  have h2: "(10, OnSpeechEnd, DeleteSpeechEndHandler) \<in> set (subscriptions ?s)"
    by code_simp
  have h3: "\<not> isRecognitionHandler DeleteSpeechEndHandler"
    by simp
  have h4: "\<not> matches (toLowerCase (''Auf ein Wiederh'' @ [oUml] @ ''ren'')) reNeuerTermin"
    and h5: "matches (toLowerCase (''Auf ein Wiederh'' @ [oUml] @ ''ren'')) reAufEinWiederhoeren"
    by code_simp+
  note T = restart_cancels_registered_subscriptions_only[of True
      "[RecognitionResult (''l'' @ [oUml] @ ''sche x'')]" "''Auf ein Wiederh'' @ [oUml] @ ''ren''"]
  have r1: "\<not> isOpen 6 (restartSpeechRecognition ?s)"
    using T[THEN conjunct1] h1 by blast
  have r2: "(10, OnSpeechEnd, DeleteSpeechEndHandler) \<in> set (subscriptions (restartSpeechRecognition ?s))"
    using T[THEN conjunct2, THEN conjunct2, THEN conjunct1, rule_format, OF h2] by simp
  have r3: "calls (deliver SpeechEnd 10 (restartSpeechRecognition ?s)) =
       calls (restartSpeechRecognition ?s) @ restartCalls"
    using T[THEN conjunct2, THEN conjunct2, THEN conjunct2, THEN conjunct1, rule_format, OF h2] .
  have r4: "subscriptions (onResultAvailable (''Auf ein Wiederh'' @ [oUml] @ ''ren'') ?s) =
       subscriptions ?s"
    using T[THEN conjunct2, THEN conjunct2, THEN conjunct2, THEN conjunct2] h4 h5 by blast
  show ?thesis
    using h1 h2 h3 h4 h5 r1 r2 r3 r4 by (intro conjI)
qed







end
